theory Spec2Isabelle
  imports Complex_Main "HOL-Library.Word" "HOL-Library.Sublist"
begin

unbundle bit_operations_syntax

section \<open>JavaScript strings and values\<close>

text \<open>
  A JavaScript string is a sequence of 16-bit code units; a \<open>Uint8Array\<close> is a sequence
  of bytes. String literals of the script are ASCII apart from the ellipsis U+2026.
\<close>

type_synonym code_unit = "16 word"
type_synonym jsstring = "code_unit list"
type_synonym byte = "8 word"

definition js :: "string \<Rightarrow> jsstring" where
  "js s = map of_char s"

text \<open>
  The characters matched by \<open>\s\<close> in a regular expression and removed by
  \<open>String.prototype.trim\<close>: WhiteSpace and LineTerminator of ECMAScript.
\<close>

definition is_ws :: "code_unit \<Rightarrow> bool" where
  "is_ws c = (c \<in> set [0x09, 0x0A, 0x0B, 0x0C, 0x0D, 0x20, 0xA0, 0x1680, 0x2028, 0x2029,
                        0x202F, 0x205F, 0x3000, 0xFEFF]
              \<or> (0x2000 \<le> c \<and> c \<le> 0x200A))"

text \<open>The character class of the second replacement in \<open>normalizeTranscript\<close>: U+200B to U+200D, and U+FEFF.\<close>

definition is_zero_width :: "code_unit \<Rightarrow> bool" where
  "is_zero_width c = ((0x200B \<le> c \<and> c \<le> 0x200D) \<or> c = 0xFEFF)"

definition trim :: "jsstring \<Rightarrow> jsstring" where
  "trim s = rev (dropWhile is_ws (rev (dropWhile is_ws s)))"

text \<open>\<open>t.replace(/\s+/g, ' ')\<close>: every maximal run of whitespace becomes one space.\<close>

function replace_ws_runs :: "jsstring \<Rightarrow> jsstring" where
  "replace_ws_runs [] = []"
| "replace_ws_runs (c # cs) =
     (if is_ws c then 0x20 # replace_ws_runs (dropWhile is_ws cs)
      else c # replace_ws_runs cs)"
  by pat_completeness auto
termination
  by (relation "measure length") (auto simp: length_dropWhile_le less_Suc_eq_le)

text \<open>The second replacement: every zero-width character is deleted.\<close>

definition strip_zero_width :: "jsstring \<Rightarrow> jsstring" where
  "strip_zero_width s = filter (\<lambda>c. \<not> is_zero_width c) s"

text \<open>
  \<^verbatim>\<open>function normalizeTranscript(t){
    return t.replace(/\s+/g,' ').replace(/[U+200B-U+200D U+FEFF]/g,'').trim(); }\<close>
\<close>

definition normalizeTranscript :: "jsstring \<Rightarrow> jsstring" where
  "normalizeTranscript t = trim (strip_zero_width (replace_ws_runs t))"

text \<open>
  The values a parsed JSON field can hold. A number carries its truthiness and its
  \<open>String(...)\<close> text (number formatting is not modelled); \<open>JObj\<close> stands for an object
  or array, always truthy, with its \<open>String(...)\<close> text.
\<close>

datatype jsval =
    JUndefined
  | JNull
  | JBool bool
  | JNum bool jsstring
  | JStr jsstring
  | JObj jsstring

fun truthy :: "jsval \<Rightarrow> bool" where
  "truthy JUndefined = False"
| "truthy JNull = False"
| "truthy (JBool b) = b"
| "truthy (JNum nz _) = nz"
| "truthy (JStr s) = (s \<noteq> [])"
| "truthy (JObj _) = True"

fun to_String :: "jsval \<Rightarrow> jsstring" where
  "to_String JUndefined = js ''undefined''"
| "to_String JNull = js ''null''"
| "to_String (JBool b) = (if b then js ''true'' else js ''false'')"
| "to_String (JNum _ t) = t"
| "to_String (JStr s) = s"
| "to_String (JObj t) = t"

section \<open>Chat rows\<close>

text \<open>
  A row of the chat list: the role of its class name \<open>msg <role>\<close>, the text content of
  its bubble, whether the bubble carries the class \<open>final\<close>, and the URL of its play button
  when it has one. \<open>addMsg\<close> returns the pair \<open>{row, bubble}\<close>; rows are only ever appended
  to the list, so the pair is modelled as the index of the row.
\<close>

record row =
  row_role :: jsstring
  bubble_text :: jsstring
  bubble_final :: bool
  play_button :: "jsstring option"

definition placeholder :: "jsstring \<Rightarrow> jsstring" where
  "placeholder role = (if role = js ''user'' then js ''[Unrecognized]'' else js ''[No response]'')"

text \<open>\<open>(text && String(text).trim()) || (role === 'user' ? '[Unrecognized]' : '[No response]')\<close>\<close>

definition bubble_content :: "jsstring \<Rightarrow> jsval \<Rightarrow> jsstring" where
  "bubble_content role text =
     (if truthy text \<and> trim (to_String text) \<noteq> [] then trim (to_String text)
      else placeholder role)"

text \<open>
  \<open>addMsg(role, text, opts)\<close> on the children of \<open>chatMessages\<close> (\<open>None\<close> when the element
  is missing from the page). \<open>audioUrl\<close> is \<open>opts.audioUrl\<close>, \<open>None\<close> when absent.
\<close>

definition addMsg ::
  "jsstring \<Rightarrow> jsval \<Rightarrow> jsstring option \<Rightarrow> row list option \<Rightarrow> nat option \<times> row list option" where
  "addMsg role text audioUrl chat =
     (case chat of
        None \<Rightarrow> (None, None)
      | Some rows \<Rightarrow>
          (let r = \<lparr> row_role = role,
                     bubble_text = bubble_content role text,
                     bubble_final = False,
                     play_button =
                       (case audioUrl of
                          Some u \<Rightarrow> (if role = js ''agent'' \<and> u \<noteq> [] then Some u else None)
                        | None \<Rightarrow> None) \<rparr>
           in (Some (length rows), Some (rows @ [r]))))"

section \<open>Platform functions\<close>

datatype js_error =
    InvalidCharacterError
  | SyntaxError
  | TypeError
  | RangeError
  | MediaError jsstring

text \<open>
  \<open>atob\<close>, the forgiving base64 decoder of the HTML standard: ASCII whitespace is removed,
  one or two trailing \<open>=\<close> are dropped when the length is a multiple of four, a length of
  \<open>1 mod 4\<close> or a character outside the alphabet fails, and the sextets are packed into
  bytes, the bits left over at the end being discarded. The script then copies the binary
  string into a \<open>Uint8Array\<close>, one byte for each character.
\<close>

definition is_ascii_ws :: "code_unit \<Rightarrow> bool" where
  "is_ascii_ws c = (c \<in> set [0x09, 0x0A, 0x0C, 0x0D, 0x20])"

definition b64_value :: "code_unit \<Rightarrow> nat option" where
  "b64_value c =
     (if 0x41 \<le> c \<and> c \<le> 0x5A then Some (unat c - 65)
      else if 0x61 \<le> c \<and> c \<le> 0x7A then Some (unat c - 71)
      else if 0x30 \<le> c \<and> c \<le> 0x39 then Some (unat c + 4)
      else if c = 0x2B then Some 62
      else if c = 0x2F then Some 63
      else None)"

definition strip_padding :: "jsstring \<Rightarrow> jsstring" where
  "strip_padding d =
     (if length d mod 4 = 0 then
        (if 2 \<le> length d \<and> last d = 0x3D \<and> last (butlast d) = 0x3D then butlast (butlast d)
         else if d \<noteq> [] \<and> last d = 0x3D then butlast d
         else d)
      else d)"

fun b64_groups :: "nat list \<Rightarrow> byte list" where
  "b64_groups (a # b # c # d # rest) =
     of_nat (a * 4 + b div 16) # of_nat ((b mod 16) * 16 + c div 4) # of_nat ((c mod 4) * 64 + d)
       # b64_groups rest"
| "b64_groups [a, b, c] = [of_nat (a * 4 + b div 16), of_nat ((b mod 16) * 16 + c div 4)]"
| "b64_groups [a, b] = [of_nat (a * 4 + b div 16)]"
| "b64_groups _ = []"

definition atob :: "jsstring \<Rightarrow> js_error + byte list" where
  "atob b64 =
     (let d = strip_padding (filter (\<lambda>c. \<not> is_ascii_ws c) b64)
      in if length d mod 4 = 1 then Inl InvalidCharacterError
         else (case those (map b64_value d) of
                 None \<Rightarrow> Inl InvalidCharacterError
               | Some vs \<Rightarrow> Inr (b64_groups vs)))"

text \<open>
  \<open>DataView.setUint32(offset, value, true)\<close>: the value is taken modulo \<open>2^32\<close> and written
  as four bytes, least significant first; a write past the end raises \<open>RangeError\<close>.
  \<open>getUint32\<close> reads such a field back.
\<close>

definition le32 :: "32 word \<Rightarrow> byte list" where
  "le32 w = [ucast w, ucast (drop_bit 8 w), ucast (drop_bit 16 w), ucast (drop_bit 24 w)]"

definition setUint32 :: "nat \<Rightarrow> nat \<Rightarrow> byte list \<Rightarrow> js_error + byte list" where
  "setUint32 off v buf =
     (if off + 4 \<le> length buf then Inr (take off buf @ le32 (of_nat v) @ drop (off + 4) buf)
      else Inl RangeError)"

definition getUint32 :: "nat \<Rightarrow> byte list \<Rightarrow> 32 word" where
  "getUint32 off buf =
     ucast (buf ! off) OR push_bit 8 (ucast (buf ! (off + 1)))
       OR push_bit 16 (ucast (buf ! (off + 2))) OR push_bit 24 (ucast (buf ! (off + 3)))"

section \<open>State of the page\<close>

text \<open>The ready state of a \<open>WebSocket\<close>.\<close>

datatype ws_state = Connecting | Open | Closing | Closed

text \<open>
  The \<open>agentAudio\<close> element: its \<open>src\<close>, whether it is playing, and the URL captured by
  the \<open>onloadeddata\<close> handler that \<open>playAgentAudio\<close> installs.
\<close>

record audio_el =
  el_src :: jsstring
  el_playing :: bool
  el_onloadeddata :: "jsstring option"

text \<open>
  The variables of the script and the elements it writes. An element missing from the
  page is \<open>None\<close>. \<open>llmStatus\<close> holds every text assigned to the status line, the latest
  last. \<open>decode_requests\<close> holds the buffers handed to \<open>decodeAudioData\<close>.
  \<open>ws_teardown_on_close\<close> tells which \<open>onclose\<close> handler the socket has: the one that only
  logs, or the one that tears capture down. \<open>streamMedia\<close> tells whether the tracks of the
  stream are live, \<open>capture_graph\<close> whether the processing graph is connected.
  \<open>liveRow\<close>, \<open>lastPartial\<close> and \<open>lastDisplayedFinal\<close> are the variables closed over by the
  message handler of the socket created last.
\<close>

record client =
  chatMessages :: "row list option"
  llmStatus :: "jsstring list option"
  micLabel :: "jsstring option"
  agentAudio :: "audio_el option"
  audio_ctx_supported :: bool
  settings_open :: bool
  settingsPromptMsg :: "jsstring option"
  murfAudioCtx :: bool
  murfAudioChunks :: "byte list list"
  murfPlaying :: bool
  murfFirstChunk :: bool
  murfSourceNode :: bool
  decode_requests :: "byte list list"
  audioUnlocked :: bool
  pendingAutoPlayUrl :: "jsstring option"
  streamWS :: "ws_state option"
  ws_teardown_on_close :: bool
  streamMedia :: "bool option"
  capture_graph :: bool
  streaming :: bool
  isMicRecording :: bool
  liveRow :: "nat option"
  lastPartial :: jsstring
  lastDisplayedFinal :: jsstring

text \<open>\<open>if (llmStatus) llmStatus.textContent = t\<close>\<close>

definition set_status :: "jsstring \<Rightarrow> client \<Rightarrow> client" where
  "set_status t s = s\<lparr>llmStatus := map_option (\<lambda>h. h @ [t]) (llmStatus s)\<rparr>"

text \<open>A block of statements either completes or throws, in a state.\<close>

datatype outcome = Done client | Thrown js_error client

section \<open>Assembly of the streamed speech\<close>

definition ellipsis :: code_unit where
  "ellipsis = 0x2026"

text \<open>
  \<open>initMurfStreamPlayback\<close>. Creating the context throws when the page has no
  \<open>AudioContext\<close> constructor. Stopping the previous source node leaves no node.
\<close>

definition initMurfStreamPlayback :: "client \<Rightarrow> outcome" where
  "initMurfStreamPlayback s =
     (if \<not> murfAudioCtx s \<and> \<not> audio_ctx_supported s then Thrown TypeError s
      else Done (set_status (js ''Buffering Murf audio'' @ [ellipsis])
                  (s\<lparr>murfAudioCtx := True, murfAudioChunks := [], murfPlaying := True,
                     murfFirstChunk := True, murfSourceNode := False\<rparr>)))"

definition RIFF :: "byte list" where
  "RIFF = [0x52, 0x49, 0x46, 0x46]"

text \<open>\<open>pushMurfAudioChunk(b64)\<close>; \<open>bytes.subarray(44)\<close> is the fragment without its first 44 bytes.\<close>

definition pushMurfAudioChunk :: "jsstring \<Rightarrow> client \<Rightarrow> outcome" where
  "pushMurfAudioChunk b64 s =
     (case atob b64 of
        Inl e \<Rightarrow> Thrown e s
      | Inr bytes \<Rightarrow>
          Done (s\<lparr>murfAudioChunks :=
                     murfAudioChunks s @
                       [if \<not> murfFirstChunk s \<and> 44 \<le> length bytes \<and> take 4 bytes = RIFF
                        then drop 44 bytes else bytes],
                   murfFirstChunk := False\<rparr>))"

text \<open>
  The repair of the two size fields in \<open>finalizeMurfStream\<close>, on the concatenated buffer.
\<close>

definition patch_sizes :: "byte list list \<Rightarrow> byte list \<Rightarrow> js_error + byte list" where
  "patch_sizes chunks fullAudio =
     (case chunks of
        [] \<Rightarrow> Inr fullAudio
      | first # _ \<Rightarrow>
          (if 44 \<le> length first \<and> take 4 first = RIFF then
             (let dataSize = length fullAudio - 44
              in case setUint32 4 (36 + dataSize) fullAudio of
                   Inl e \<Rightarrow> Inl e
                 | Inr b \<Rightarrow> setUint32 40 dataSize b)
           else Inr fullAudio))"

text \<open>
  \<open>finalizeMurfStream\<close>: the concatenated and repaired buffer is handed to
  \<open>decodeAudioData\<close>, whose callbacks run later.
\<close>

definition finalizeMurfStream :: "client \<Rightarrow> outcome" where
  "finalizeMurfStream s =
     (let s1 = s\<lparr>murfPlaying := False\<rparr>
      in if \<not> murfAudioCtx s1 \<or> murfAudioChunks s1 = [] then Done s1
         else (case patch_sizes (murfAudioChunks s1) (concat (murfAudioChunks s1)) of
                 Inl e \<Rightarrow> Thrown e s1
               | Inr fullAudio \<Rightarrow> Done (s1\<lparr>decode_requests := decode_requests s1 @ [fullAudio]\<rparr>)))"

section \<open>Inbound messages and the transcript rows\<close>

text \<open>
  The data of a socket message is a string or, as \<open>binaryType\<close> is \<open>arraybuffer\<close>, a
  buffer. \<open>JSON.parse\<close> is the platform's: a message carries what it returns on the
  message's text. The handler reads four properties of a parsed object; every other parsed
  value (\<open>null\<close>, a boolean, a number, a string, an array) has none of them.
\<close>

datatype ws_data = TextData jsstring | BinaryData

record ws_object =
  o_type :: jsval
  o_audio_b64 :: jsval
  o_transcript :: jsval
  o_llm_response :: jsval

datatype parse_result = JsonSyntaxError | JsonOther | JsonObject ws_object

record ws_message =
  msg_data :: ws_data
  msg_json :: parse_result

definition JSON_parse :: "ws_message \<Rightarrow> parse_result" where
  "JSON_parse m = (case msg_data m of BinaryData \<Rightarrow> JsonSyntaxError | TextData _ \<Rightarrow> msg_json m)"

definition set_bubble_text :: "nat \<Rightarrow> jsstring \<Rightarrow> row list option \<Rightarrow> row list option" where
  "set_bubble_text i t chat =
     map_option (\<lambda>rows. if i < length rows then rows[i := (rows ! i)\<lparr>bubble_text := t\<rparr>] else rows)
       chat"

definition mark_final :: "nat \<Rightarrow> row list option \<Rightarrow> row list option" where
  "mark_final i chat =
     map_option (\<lambda>rows. if i < length rows then rows[i := (rows ! i)\<lparr>bubble_final := True\<rparr>] else rows)
       chat"

text \<open>
  The last block of the handler: a string that is not blank is a partial transcript.
\<close>

definition on_partial :: "ws_data \<Rightarrow> client \<Rightarrow> client" where
  "on_partial raw s =
     (case raw of
        BinaryData \<Rightarrow> s
      | TextData r \<Rightarrow>
          if trim r = [] then s
          else
            (let text = normalizeTranscript r
             in if text = lastPartial s then s
                else
                  (let s1 = s\<lparr>lastPartial := text\<rparr>;
                       s2 = (case liveRow s1 of
                               None \<Rightarrow>
                                 (let created = addMsg (js ''user'') (JStr text) None (chatMessages s1)
                                  in s1\<lparr>liveRow := fst created, chatMessages := snd created\<rparr>)
                             | Some i \<Rightarrow>
                                 s1\<lparr>chatMessages := set_bubble_text i text (chatMessages s1)\<rparr>)
                   in set_status text s2)))"

text \<open>
  The \<open>turn_end\<close> block. \<open>finalText\<close> is a string or \<open>null\<close>; it is only tested for
  truthiness, concatenated when truthy and replaced by the empty string otherwise, so
  \<open>null\<close> is modelled as the empty string. \<open>normalizeTranscript\<close> on a truthy transcript
  that is not a string throws.
\<close>

definition on_turn_end :: "ws_object \<Rightarrow> client \<Rightarrow> outcome" where
  "on_turn_end obj s =
     (case (if truthy (o_transcript obj)
            then (case o_transcript obj of
                    JStr t \<Rightarrow> Inr (normalizeTranscript t)
                  | _ \<Rightarrow> Inl TypeError)
            else Inr (lastPartial s)) of
        Inl e \<Rightarrow> Thrown e s
      | Inr finalText \<Rightarrow>
          (let s1 = (case liveRow s of
                       None \<Rightarrow>
                         if finalText \<noteq> [] then
                           (let created = addMsg (js ''user'') (JStr finalText) None (chatMessages s)
                            in s\<lparr>liveRow := fst created, chatMessages := snd created\<rparr>)
                         else s
                     | Some i \<Rightarrow>
                         if finalText \<noteq> [] then
                           s\<lparr>chatMessages := set_bubble_text i finalText (chatMessages s)\<rparr>
                         else s);
               s2 = (case liveRow s1 of
                       None \<Rightarrow> s1
                     | Some i \<Rightarrow> s1\<lparr>chatMessages := mark_final i (chatMessages s1)\<rparr>);
               s3 = set_status (if finalText \<noteq> [] then js ''Final: '' @ finalText
                                else js ''Turn ended'') s2;
               s4 = s3\<lparr>lastDisplayedFinal := finalText\<rparr>;
               s5 = (if truthy (o_llm_response obj) then
                       s4\<lparr>chatMessages :=
                            snd (addMsg (js ''agent'') (o_llm_response obj) None (chatMessages s4))\<rparr>
                     else s4)
           in Done (s5\<lparr>liveRow := None, lastPartial := []\<rparr>)))"

text \<open>
  The inner \<open>try\<close> block of the handler: \<open>None\<close> when no branch is taken, \<open>Done\<close> when a
  branch returns, \<open>Thrown\<close> when \<open>JSON.parse\<close> or a branch throws.
\<close>

definition on_json :: "ws_message \<Rightarrow> client \<Rightarrow> outcome option" where
  "on_json m s =
     (case JSON_parse m of
        JsonSyntaxError \<Rightarrow> Some (Thrown SyntaxError s)
      | JsonOther \<Rightarrow> None
      | JsonObject obj \<Rightarrow>
          (case (o_type obj, o_audio_b64 obj) of
             (JStr ty, JStr b64) \<Rightarrow>
               if ty = js ''tts_chunk'' then
                 Some (case (if murfPlaying s then Done s else initMurfStreamPlayback s) of
                         Thrown e s1 \<Rightarrow> Thrown e s1
                       | Done s1 \<Rightarrow> pushMurfAudioChunk b64 s1)
               else if ty = js ''tts_done'' then Some (finalizeMurfStream s)
               else if ty = js ''turn_end'' then Some (on_turn_end obj s)
               else None
           | (JStr ty, _) \<Rightarrow>
               if ty = js ''tts_done'' then Some (finalizeMurfStream s)
               else if ty = js ''turn_end'' then Some (on_turn_end obj s)
               else None
           | _ \<Rightarrow> None))"

text \<open>
  \<open>streamWS.onmessage\<close>: a branch that returns ends the handler; after a throw, which the
  inner \<open>catch\<close> swallows, and when no branch is taken, the text is treated as a partial
  transcript.
\<close>

definition onmessage :: "ws_message \<Rightarrow> client \<Rightarrow> client" where
  "onmessage m s =
     (case on_json m s of
        Some (Done s1) \<Rightarrow> s1
      | Some (Thrown e s1) \<Rightarrow> on_partial (msg_data m) s1
      | None \<Rightarrow> on_partial (msg_data m) s)"

text \<open>The messages of a socket, handled in arrival order.\<close>

definition run_messages :: "ws_message list \<Rightarrow> client \<Rightarrow> client" where
  "run_messages ms s = fold onmessage ms s"

section \<open>Autoplay gate and single-shot playback\<close>

text \<open>
  \<open>url + (url.includes('?') ? '&' : '?') + 't=' + Date.now()\<close>, the decimal text of the
  clock being given.
\<close>

definition cache_bust :: "jsstring \<Rightarrow> jsstring \<Rightarrow> jsstring" where
  "cache_bust url now = url @ (if 0x3F \<in> set url then [0x26] else [0x3F]) @ js ''t='' @ now"

definition playAgentAudio :: "jsstring \<Rightarrow> bool \<Rightarrow> jsstring \<Rightarrow> client \<Rightarrow> client" where
  "playAgentAudio url force now s =
     (case agentAudio s of
        None \<Rightarrow> s
      | Some a \<Rightarrow>
          if url = [] then s
          else if \<not> audioUnlocked s \<and> \<not> force then s\<lparr>pendingAutoPlayUrl := Some url\<rparr>
          else s\<lparr>agentAudio :=
                   Some (a\<lparr>el_playing := False, el_src := cache_bust url now,
                           el_onloadeddata := Some url\<rparr>)\<rparr>)"

text \<open>\<open>agentAudio.play()\<close> that fulfils.\<close>

definition play_started :: "client \<Rightarrow> client" where
  "play_started s = s\<lparr>agentAudio := map_option (\<lambda>a. a\<lparr>el_playing := True\<rparr>) (agentAudio s)\<rparr>"

text \<open>
  \<open>retryPlay(attempt)\<close> of the request for \<open>url\<close>. \<open>plays k\<close> tells whether the \<open>play()\<close>
  of attempt \<open>k\<close> fulfils, the first attempt being number 0. The result lists the delays
  of the timers set, in milliseconds, each followed by one \<open>play()\<close>.
\<close>

function retryPlay :: "jsstring \<Rightarrow> (nat \<Rightarrow> bool) \<Rightarrow> nat \<Rightarrow> client \<Rightarrow> nat list \<times> client" where
  "retryPlay url plays attempt s =
     (if attempt > 3 then ([], s\<lparr>pendingAutoPlayUrl := Some url\<rparr>)
      else if plays attempt then ([250 * attempt], play_started s)
      else (let rest = retryPlay url plays (attempt + 1) s
            in (250 * attempt # fst rest, snd rest)))"
  by pat_completeness auto
termination
  by (relation "measure (\<lambda>(url, plays, attempt, s). 4 - attempt)") auto

text \<open>The \<open>onloadeddata\<close> handler installed by \<open>playAgentAudio\<close>: the first attempt.\<close>

definition onloadeddata :: "(nat \<Rightarrow> bool) \<Rightarrow> client \<Rightarrow> nat list \<times> client" where
  "onloadeddata plays s =
     (case agentAudio s of
        None \<Rightarrow> ([], s)
      | Some a \<Rightarrow>
          (case el_onloadeddata a of
             None \<Rightarrow> ([], s)
           | Some url \<Rightarrow>
               if plays 0 then ([], play_started s) else retryPlay url plays 1 s))"

definition flush_pending :: "jsstring \<Rightarrow> client \<Rightarrow> client" where
  "flush_pending now s =
     (case pendingAutoPlayUrl s of
        None \<Rightarrow> s
      | Some u \<Rightarrow>
          if u = [] then s
          else playAgentAudio u True now (s\<lparr>pendingAutoPlayUrl := None\<rparr>))"

text \<open>
  \<open>unlockAudioIfNeeded\<close>. \<open>probe_ok\<close> tells whether the silent one-sample buffer could be
  created and started; when it throws, or when the page has no \<open>AudioContext\<close>, the
  statements after the \<open>try\<close> run instead.
\<close>

definition unlockAudioIfNeeded :: "bool \<Rightarrow> jsstring \<Rightarrow> client \<Rightarrow> client" where
  "unlockAudioIfNeeded probe_ok now s =
     (if audioUnlocked s then s
      else if audio_ctx_supported s \<and> probe_ok then flush_pending now (s\<lparr>audioUnlocked := True\<rparr>)
      else flush_pending now (s\<lparr>audioUnlocked := True\<rparr>))"

section \<open>Microphone streaming\<close>

text \<open>
  The keys read by \<open>getCurrentKeys\<close> that \<open>requireKeysOrPrompt\<close> tests. The prompt of the
  settings dialog is \<open>None\<close> while hidden; moving the focus is not modelled.
\<close>

record api_keys =
  key_AAI :: jsstring
  key_GEMINI :: jsstring
  key_MURF :: jsstring

fun join_comma :: "jsstring list \<Rightarrow> jsstring" where
  "join_comma [] = []"
| "join_comma [x] = x"
| "join_comma (x # xs) = x @ js '', '' @ join_comma xs"

definition missing_keys :: "jsstring \<Rightarrow> api_keys \<Rightarrow> jsstring list" where
  "missing_keys feature keys =
     (if feature = js ''mic'' then
        (if key_AAI keys = [] then [js ''AssemblyAI''] else []) @
        (if key_GEMINI keys = [] then [js ''Gemini''] else []) @
        (if key_MURF keys = [] then [js ''Murf''] else [])
      else if feature = js ''tts'' then (if key_MURF keys = [] then [js ''Murf''] else [])
      else if feature = js ''echo'' then (if key_MURF keys = [] then [js ''Murf''] else [])
      else [])"

definition requireKeysOrPrompt :: "jsstring \<Rightarrow> api_keys \<Rightarrow> client \<Rightarrow> bool \<times> client" where
  "requireKeysOrPrompt feature keys s =
     (let missing = missing_keys feature keys
      in if missing \<noteq> [] then
           (False, s\<lparr>settingsPromptMsg :=
                        Some (js ''Please provide your API keys to start: '' @ join_comma missing),
                      settings_open := True\<rparr>)
         else (True, s\<lparr>settingsPromptMsg := None\<rparr>))"

text \<open>\<open>setMicState(active)\<close>; the classes of the button and the sound cues are not modelled.\<close>

definition setMicState :: "bool \<Rightarrow> client \<Rightarrow> client" where
  "setMicState active s =
     set_status (if active then js ''Listening'' @ [ellipsis] else [])
       (s\<lparr>isMicRecording := active,
          micLabel := map_option (\<lambda>_. if active then js ''Stop Speaking'' else js ''Start Speaking'')
                        (micLabel s)\<rparr>)"

text \<open>\<open>ws.close()\<close> has no effect on a socket that is closing or closed.\<close>

fun ws_close :: "ws_state \<Rightarrow> ws_state" where
  "ws_close Connecting = Closing"
| "ws_close Open = Closing"
| "ws_close Closing = Closing"
| "ws_close Closed = Closed"

text \<open>\<open>streamMedia.getTracks().forEach(t => t.stop())\<close>: the stream, if any, is no longer live.\<close>

definition stop_tracks :: "client \<Rightarrow> client" where
  "stop_tracks s = s\<lparr>streamMedia := map_option (\<lambda>_. False) (streamMedia s)\<rparr>"

text \<open>
  \<open>toggleMic\<close> is asynchronous: it runs to its end, or to the \<open>await\<close> of
  \<open>getUserMedia\<close>, where \<open>toggleMic_resume\<close> continues it with the answer.
  \<open>streamRecorder\<close> is never assigned, so the first statement of the stop branch does
  nothing.
\<close>

datatype toggle_result = Returned client | AwaitGetUserMedia client

definition toggleMic :: "api_keys \<Rightarrow> bool \<Rightarrow> jsstring \<Rightarrow> client \<Rightarrow> toggle_result" where
  "toggleMic keys probe_ok now s =
     (let checked = requireKeysOrPrompt (js ''mic'') keys s
      in if \<not> fst checked then Returned (snd checked)
         else
           (let s1 = unlockAudioIfNeeded probe_ok now (snd checked)
            in if streaming s1 then
                 Returned
                   (set_status []
                     (setMicState False
                       ((stop_tracks s1)
                          \<lparr>streamWS := (case streamWS s1 of
                                          Some Open \<Rightarrow> Some Closing
                                        | w \<Rightarrow> w),
                           streaming := False\<rparr>)))
               else
                 AwaitGetUserMedia
                   (s1\<lparr>streamWS := Some Connecting, ws_teardown_on_close := False,
                       liveRow := None, lastPartial := [], lastDisplayedFinal := []\<rparr>)))"

text \<open>
  The answer of \<open>getUserMedia\<close>: a stream, or a rejection with its message. The wording of
  the engine's own messages is not modelled: such an error is shown by its name.
\<close>

datatype gum_result = Granted | Rejected jsstring

fun error_message :: "js_error \<Rightarrow> jsstring" where
  "error_message (MediaError m) = m"
| "error_message InvalidCharacterError = js ''InvalidCharacterError''"
| "error_message SyntaxError = js ''SyntaxError''"
| "error_message TypeError = js ''TypeError''"
| "error_message RangeError = js ''RangeError''"

text \<open>The \<open>catch\<close> block of \<open>toggleMic\<close>.\<close>

definition start_failed :: "js_error \<Rightarrow> client \<Rightarrow> client" where
  "start_failed err s =
     stop_tracks
       ((set_status (js ''Mic error: '' @ error_message err) s)
          \<lparr>streamWS := map_option ws_close (streamWS s)\<rparr>)"

definition toggleMic_resume :: "gum_result \<Rightarrow> client \<Rightarrow> client" where
  "toggleMic_resume answer s =
     (case answer of
        Rejected m \<Rightarrow> start_failed (MediaError m) s
      | Granted \<Rightarrow>
          (let s1 = s\<lparr>streamMedia := Some True\<rparr>
           in if \<not> audio_ctx_supported s1 then start_failed TypeError s1
              else (set_status (js ''Streaming'' @ [ellipsis])
                      (setMicState True (s1\<lparr>capture_graph := True, streaming := True\<rparr>)))
                   \<lparr>ws_teardown_on_close := True\<rparr>))"

text \<open>The socket opens; the socket closes and its \<open>onclose\<close> handler runs.\<close>

definition ws_onopen :: "client \<Rightarrow> client" where
  "ws_onopen s = s\<lparr>streamWS := (case streamWS s of Some Connecting \<Rightarrow> Some Open | w \<Rightarrow> w)\<rparr>"

definition ws_onclose :: "client \<Rightarrow> client" where
  "ws_onclose s =
     (let s1 = s\<lparr>streamWS := map_option (\<lambda>_. Closed) (streamWS s)\<rparr>
      in if ws_teardown_on_close s1 then
           set_status []
             (setMicState False ((stop_tracks (s1\<lparr>capture_graph := False\<rparr>))\<lparr>streaming := False\<rparr>))
         else s1)"

section \<open>Outbound frames\<close>

text \<open>
  The samples of the input buffer and the numbers computed from them. A finite number is
  given by its exact value: a 32-bit float is a significand below \<open>2^24\<close> times a power of
  two, so its products with \<open>0x8000\<close> and \<open>0x7FFF\<close> have a significand below \<open>2^53\<close> and
  the 64-bit multiplication of the script returns them exactly. The two zeros are not told
  apart; both are stored as 0.
\<close>

datatype number = Finite rat | PosInfinity | NegInfinity | NaN

fun Math_min :: "number \<Rightarrow> number \<Rightarrow> number" where
  "Math_min NaN _ = NaN"
| "Math_min _ NaN = NaN"
| "Math_min NegInfinity _ = NegInfinity"
| "Math_min _ NegInfinity = NegInfinity"
| "Math_min PosInfinity y = y"
| "Math_min x PosInfinity = x"
| "Math_min (Finite a) (Finite b) = Finite (min a b)"

fun Math_max :: "number \<Rightarrow> number \<Rightarrow> number" where
  "Math_max NaN _ = NaN"
| "Math_max _ NaN = NaN"
| "Math_max PosInfinity _ = PosInfinity"
| "Math_max _ PosInfinity = PosInfinity"
| "Math_max NegInfinity y = y"
| "Math_max x NegInfinity = x"
| "Math_max (Finite a) (Finite b) = Finite (max a b)"

text \<open>\<open>s < 0\<close> and \<open>s * k\<close> for a positive constant \<open>k\<close>.\<close>

fun less_zero :: "number \<Rightarrow> bool" where
  "less_zero (Finite a) = (a < 0)"
| "less_zero NegInfinity = True"
| "less_zero _ = False"

fun times_const :: "number \<Rightarrow> nat \<Rightarrow> number" where
  "times_const (Finite a) k = Finite (a * of_nat k)"
| "times_const x _ = x"

text \<open>
  \<open>DataView.setInt16(offset, value, true)\<close>: the number is truncated towards zero and taken
  modulo \<open>2^16\<close>, \<open>NaN\<close> and the infinities giving 0; the two bytes are written least
  significant first. \<open>getInt16\<close> reads such a field back.
\<close>

definition trunc_toward_zero :: "rat \<Rightarrow> int" where
  "trunc_toward_zero a = (if a < 0 then - \<lfloor>- a\<rfloor> else \<lfloor>a\<rfloor>)"

fun ToInt16 :: "number \<Rightarrow> 16 word" where
  "ToInt16 (Finite a) = word_of_int (trunc_toward_zero a)"
| "ToInt16 _ = 0"

definition setInt16 :: "nat \<Rightarrow> number \<Rightarrow> byte list \<Rightarrow> js_error + byte list" where
  "setInt16 off v buf =
     (if off + 2 \<le> length buf
      then Inr (buf[off := ucast (ToInt16 v), off + 1 := ucast (drop_bit 8 (ToInt16 v))])
      else Inl RangeError)"

definition getInt16 :: "nat \<Rightarrow> byte list \<Rightarrow> 16 word" where
  "getInt16 off buf = ucast (buf ! off) OR push_bit 8 (ucast (buf ! (off + 1)))"

text \<open>
  The body of the loop of \<open>processor.onaudioprocess\<close>:
  \<^verbatim>\<open>let s = Math.max(-1, Math.min(1, inputData[i]));
  view.setInt16(i * 2, s < 0 ? s * 0x8000 : s * 0x7FFF, true);\<close>
\<close>

definition pcm_sample :: "number \<Rightarrow> number" where
  "pcm_sample x =
     (let s = Math_max (Finite (- 1)) (Math_min (Finite 1) x)
      in if less_zero s then times_const s 0x8000 else times_const s 0x7FFF)"

fun convert_loop :: "number list \<Rightarrow> nat \<Rightarrow> byte list \<Rightarrow> js_error + byte list" where
  "convert_loop [] i buf = Inr buf"
| "convert_loop (x # xs) i buf =
     (case setInt16 (i * 2) (pcm_sample x) buf of
        Inl e \<Rightarrow> Inl e
      | Inr buf1 \<Rightarrow> convert_loop xs (Suc i) buf1)"

text \<open>
  \<open>processor.onaudioprocess\<close>: the buffer built from the input, and whether it was sent,
  which it is when the socket is open.
\<close>

definition onaudioprocess :: "number list \<Rightarrow> client \<Rightarrow> js_error + (byte list \<times> bool)" where
  "onaudioprocess inputData s =
     (case convert_loop inputData 0 (replicate (length inputData * 2) 0) of
        Inl e \<Rightarrow> Inl e
      | Inr buffer \<Rightarrow> Inr (buffer, streamWS s = Some Open))"

section \<open>Reference definitions and states\<close>

text \<open>
  What the assembly is meant to keep of a fragment after the first, and of a whole session:
  a fragment of at least 44 bytes that begins with \<open>RIFF\<close> loses its first 44 bytes, the
  first fragment and every other one are kept whole.
\<close>

definition strip_duplicate_header :: "byte list \<Rightarrow> byte list" where
  "strip_duplicate_header f = (if 44 \<le> length f \<and> take 4 f = RIFF then drop 44 f else f)"

fun assembled_spec :: "byte list list \<Rightarrow> byte list list" where
  "assembled_spec [] = []"
| "assembled_spec (f # fs) = f # map strip_duplicate_header fs"

text \<open>A message that the handler takes as a \<open>tts_chunk\<close> event with the payload \<open>b64\<close>.\<close>

definition is_tts_chunk :: "ws_message \<Rightarrow> jsstring \<Rightarrow> bool" where
  "is_tts_chunk m b64 =
     (case JSON_parse m of
        JsonObject obj \<Rightarrow> o_type obj = JStr (js ''tts_chunk'') \<and> o_audio_b64 obj = JStr b64
      | _ \<Rightarrow> False)"

definition quoted :: "jsstring \<Rightarrow> jsstring" where
  "quoted t = 0x22 # t @ [0x22]"

definition tts_chunk :: "jsstring \<Rightarrow> ws_message" where
  "tts_chunk b64 =
     \<lparr>msg_data = TextData (js ''{'' @ quoted (js ''type'') @ js '':'' @ quoted (js ''tts_chunk'')
                              @ js '','' @ quoted (js ''audio_b64'') @ js '':'' @ quoted b64
                              @ js ''}''),
      msg_json = JsonObject \<lparr>o_type = JStr (js ''tts_chunk''), o_audio_b64 = JStr b64,
                             o_transcript = JUndefined, o_llm_response = JUndefined\<rparr>\<rparr>"

text \<open>
  The whole of \<open>toggleMic\<close> when nothing happens between its call and the answer of
  \<open>getUserMedia\<close>.
\<close>

definition toggleMic_run :: "api_keys \<Rightarrow> bool \<Rightarrow> jsstring \<Rightarrow> gum_result \<Rightarrow> client \<Rightarrow> client" where
  "toggleMic_run keys probe_ok now answer s =
     (case toggleMic keys probe_ok now s of
        Returned s1 \<Rightarrow> s1
      | AwaitGetUserMedia s1 \<Rightarrow> toggleMic_resume answer s1)"

text \<open>
  The state once the script has run on a page that has every element and an
  \<open>AudioContext\<close> constructor: the initial values of the script's variables, an empty chat
  and no status written yet.
\<close>

definition page_loaded :: client where
  "page_loaded =
     \<lparr>chatMessages = Some [], llmStatus = Some [], micLabel = Some [],
      agentAudio = Some \<lparr>el_src = [], el_playing = False, el_onloadeddata = None\<rparr>,
      audio_ctx_supported = True, settings_open = False, settingsPromptMsg = None,
      murfAudioCtx = False, murfAudioChunks = [], murfPlaying = False, murfFirstChunk = True,
      murfSourceNode = False, decode_requests = [], audioUnlocked = False,
      pendingAutoPlayUrl = None, streamWS = None, ws_teardown_on_close = False,
      streamMedia = None, capture_graph = False, streaming = False, isMicRecording = False,
      liveRow = None, lastPartial = [], lastDisplayedFinal = []\<rparr>"

definition all_keys :: api_keys where
  "all_keys = \<lparr>key_AAI = js ''a'', key_GEMINI = js ''g'', key_MURF = js ''m''\<rparr>"

text \<open>
  Two fragments that each begin with a 44-byte \<open>RIFF\<close> header, with two and with one byte
  of payload, and their base64 texts.
\<close>

definition fragment_a :: "byte list" where
  "fragment_a = RIFF @ replicate 40 0 @ [1, 2]"

definition fragment_b :: "byte list" where
  "fragment_b = RIFF @ replicate 40 0 @ [7]"

definition fragment_a_b64 :: jsstring where
  "fragment_a_b64 = js ''UklGRgAAAAAAAAAAAAAAAAAAAAAAAAAAAAAAAAAAAAAAAAAAAAAAAAAAAAABAg==''"

definition fragment_b_b64 :: jsstring where
  "fragment_b_b64 = js ''UklGRgAAAAAAAAAAAAAAAAAAAAAAAAAAAAAAAAAAAAAAAAAAAAAAAAAAAAAH''"

text \<open>A state in the middle of an assembly session, after \<open>fragment_a\<close> and three more bytes.\<close>

definition accumulating :: client where
  "accumulating =
     page_loaded\<lparr>murfAudioCtx := True, murfPlaying := True, murfFirstChunk := False,
                 murfAudioChunks := [fragment_a, [3, 4, 5]]\<rparr>"

text \<open>A request URL, and the two ways its attempts can go: never, or at the second retry.\<close>

definition reply_url :: jsstring where
  "reply_url = js ''/static/reply.mp3''"

definition never_plays :: "nat \<Rightarrow> bool" where
  "never_plays k = False"

definition plays_at_second_retry :: "nat \<Rightarrow> bool" where
  "plays_at_second_retry k = (k = 2)"

text \<open>Four input samples: a half, minus a half, a value above the range, and \<open>NaN\<close>.\<close>

definition four_samples :: "number list" where
  "four_samples = [Finite (1 / 2), Finite (- (1 / 2)), Finite 2, NaN]"

text \<open>
  A message that the handler takes as plain text \<open>p\<close>: its data is the string \<open>p\<close>, which
  \<open>JSON.parse\<close> rejects or parses to something other than an object. A \<open>turn_end\<close> event
  that carries no transcript. One message of each kind.
\<close>

definition is_plain_text :: "ws_message \<Rightarrow> jsstring \<Rightarrow> bool" where
  "is_plain_text m p =
     (msg_data m = TextData p \<and> (msg_json m = JsonSyntaxError \<or> msg_json m = JsonOther))"

definition is_turn_end_without_transcript :: "ws_message \<Rightarrow> bool" where
  "is_turn_end_without_transcript m =
     (case JSON_parse m of
        JsonObject obj \<Rightarrow> o_type obj = JStr (js ''turn_end'') \<and> o_transcript obj = JUndefined
      | _ \<Rightarrow> False)"

definition partial_message :: "jsstring \<Rightarrow> ws_message" where
  "partial_message p = \<lparr>msg_data = TextData p, msg_json = JsonSyntaxError\<rparr>"

definition turn_end_message :: ws_message where
  "turn_end_message =
     \<lparr>msg_data = TextData (js ''{'' @ quoted (js ''type'') @ js '':'' @ quoted (js ''turn_end'')
                              @ js ''}''),
      msg_json = JsonObject \<lparr>o_type = JStr (js ''turn_end''), o_audio_b64 = JUndefined,
                             o_transcript = JUndefined, o_llm_response = JUndefined\<rparr>\<rparr>"

text \<open>The partial transcripts that pass the handler's test \<open>raw.trim()\<close>.\<close>

definition not_blank :: "jsstring list \<Rightarrow> jsstring list" where
  "not_blank ps = filter (\<lambda>p. trim p \<noteq> []) ps"

text \<open>
  The state of the handler's variables within an utterance, over the rows \<open>rows\<close> that
  were in the chat when it began: either no row is live and no partial is remembered, or
  the live row is the one after \<open>rows\<close>, a user row not yet final that shows the
  remembered partial.
\<close>

definition live_state :: "row list \<Rightarrow> client \<Rightarrow> bool" where
  "live_state rows s =
     (case liveRow s of
        None \<Rightarrow> lastPartial s = [] \<and> chatMessages s = Some rows
      | Some i \<Rightarrow>
          i = length rows \<and>
          (case chatMessages s of
             None \<Rightarrow> False
           | Some xs \<Rightarrow>
               xs = rows @ [\<lparr>row_role = js ''user'', bubble_text = lastPartial s,
                               bubble_final = False, play_button = None\<rparr>]))"

text \<open>
  What the socket can do between the call of \<open>toggleMic\<close> and the answer of
  \<open>getUserMedia\<close>: it opens, it delivers a message, it closes. Each runs its handler.
\<close>

datatype socket_event = SocketOpened | SocketClosed | SocketMessage ws_message

fun socket_event_handler :: "socket_event \<Rightarrow> client \<Rightarrow> client" where
  "socket_event_handler SocketOpened s = ws_onopen s"
| "socket_event_handler SocketClosed s = ws_onclose s"
| "socket_event_handler (SocketMessage m) s = onmessage m s"

definition run_socket_events :: "socket_event list \<Rightarrow> client \<Rightarrow> client" where
  "run_socket_events evs s = fold socket_event_handler evs s"

fun carries_message :: "socket_event \<Rightarrow> bool" where
  "carries_message (SocketMessage m) = True"
| "carries_message _ = False"

text \<open>The state in which a block of statements ends, and the capture side of a state.\<close>

fun outcome_state :: "outcome \<Rightarrow> client" where
  "outcome_state (Done s) = s"
| "outcome_state (Thrown e s) = s"

definition capture_fields :: "client \<Rightarrow> bool option \<times> bool \<times> bool \<times> bool \<times> bool" where
  "capture_fields s =
     (streamMedia s, capture_graph s, streaming s, isMicRecording s, ws_teardown_on_close s)"

section \<open>Size repair on finalisation\<close>

declare retryPlay.simps [simp del]

lemma le32_word:
  "ucast (ucast w :: byte) OR push_bit 8 (ucast (ucast (drop_bit 8 w) :: byte))
     OR push_bit 16 (ucast (ucast (drop_bit 16 w) :: byte))
     OR push_bit 24 (ucast (ucast (drop_bit 24 w) :: byte)) = (w :: 32 word)"
  (is "?lhs = w")
proof (rule bit_word_eqI)
  fix n :: nat
  assume "n < LENGTH(32)"
  then have n: "n < 32" by simp
  consider "n < 8" | "8 \<le> n" "n < 16" | "16 \<le> n" "n < 24" | "24 \<le> n"
    by linarith
  then show "bit ?lhs n = bit w n"
    using n by cases (auto simp: bit_simps)
qed

lemma length_le32 [simp]: "length (le32 w) = 4"
  by (simp add: le32_def)

lemma getUint32_le32: "length pre = off \<Longrightarrow> getUint32 off (pre @ le32 w @ post) = w"
  by (simp add: getUint32_def le32_def nth_append le32_word)

lemma setUint32_length:
  "setUint32 off v buf = Inr out \<Longrightarrow> length out = length buf"
  by (auto simp: setUint32_def split: if_splits)

lemma setUint32_get:
  "setUint32 off v buf = Inr out \<Longrightarrow> getUint32 off out = of_nat v"
  by (auto simp: setUint32_def getUint32_le32 split: if_splits)

lemma setUint32_nth:
  assumes "setUint32 off v buf = Inr out" "i < off \<or> off + 4 \<le> i"
  shows "out ! i = buf ! i"
proof -
  from assms(1) have len: "off + 4 \<le> length buf"
    and out: "out = take off buf @ le32 (of_nat v) @ drop (off + 4) buf"
    by (auto simp: setUint32_def split: if_splits)
  from assms(2) show ?thesis
  proof
    assume "i < off"
    then show ?thesis using len by (simp add: out nth_append)
  next
    assume i: "off + 4 \<le> i"
    then have "out ! i = (le32 (of_nat v :: 32 word) @ drop (off + 4) buf) ! (i - off)"
      using len by (simp add: out nth_append)
    also have "\<dots> = drop (off + 4) buf ! (i - off - 4)"
    proof -
      have "\<not> i - off < 4" using i by arith
      then show ?thesis by (simp add: nth_append)
    qed
    also have "\<dots> = buf ! i"
      using i len by simp
    finally show ?thesis .
  qed
qed

lemma getUint32_cong:
  "a ! off = b ! off \<Longrightarrow> a ! (off + 1) = b ! (off + 1) \<Longrightarrow> a ! (off + 2) = b ! (off + 2)
   \<Longrightarrow> a ! (off + 3) = b ! (off + 3) \<Longrightarrow> getUint32 off a = getUint32 off b"
  by (simp add: getUint32_def)

lemma patch_sizes_RIFF:
  assumes "chunks = first # rest" "44 \<le> length first" "take 4 first = RIFF"
    and "44 \<le> length buf"
  shows "\<exists>out. patch_sizes chunks buf = Inr out \<and> length out = length buf
     \<and> getUint32 4 out = of_nat (36 + (length buf - 44))
     \<and> getUint32 40 out = of_nat (length buf - 44)
     \<and> (\<forall>i < length buf. i \<notin> {4..<8} \<longrightarrow> i \<notin> {40..<44} \<longrightarrow> out ! i = buf ! i)"
proof -
  let ?d = "length buf - 44"
  obtain b1 where b1: "setUint32 4 (36 + ?d) buf = Inr b1"
    using assms(4) by (simp add: setUint32_def)
  have l1: "length b1 = length buf" by (rule setUint32_length[OF b1])
  obtain b2 where b2: "setUint32 40 ?d b1 = Inr b2"
    using assms(4) l1 by (simp add: setUint32_def)
  have l2: "length b2 = length buf" using setUint32_length[OF b2] l1 by simp
  have p: "patch_sizes chunks buf = Inr b2"
    using assms(1,2,3) b1 b2 by (simp add: patch_sizes_def)
  have g40: "getUint32 40 b2 = of_nat ?d" by (rule setUint32_get[OF b2])
  have "getUint32 4 b2 = getUint32 4 b1"
    by (rule getUint32_cong) (simp_all add: setUint32_nth[OF b2])
  then have g4: "getUint32 4 b2 = of_nat (36 + ?d)" by (simp add: setUint32_get[OF b1])
  have rest: "b2 ! i = buf ! i" if "i \<notin> {4..<8}" "i \<notin> {40..<44}" for i
  proof -
    have "b2 ! i = b1 ! i" using that(2) by (intro setUint32_nth[OF b2]) auto
    also have "\<dots> = buf ! i" using that(1) by (intro setUint32_nth[OF b1]) auto
    finally show ?thesis .
  qed
  show ?thesis using p l2 g4 g40 rest by blast
qed

text \<open>
  C2. When the audio context exists and the first buffered fragment has at least 44 bytes
  and begins with \<open>RIFF\<close>, \<open>finalizeMurfStream\<close> hands to the decoder a buffer of the total
  length \<open>L\<close> of the fragments whose 32-bit little-endian field at offset 4 is
  \<open>36 + (L - 44)\<close> and whose field at offset 40 is \<open>L - 44\<close>, every byte outside the two
  fields being the one of the concatenation. The fields hold 32 bits: the equalities are
  between 32-bit values, and between numbers whenever \<open>L < 2^32 + 8\<close>.
\<close>

theorem finalizeMurfStream_patches_sizes:
  assumes "murfAudioCtx s" and "murfAudioChunks s = first # rest"
    and "44 \<le> length first" and "take 4 first = RIFF"
  shows "\<exists>fullAudio.
           finalizeMurfStream s =
             Done (s\<lparr>murfPlaying := False, decode_requests := decode_requests s @ [fullAudio]\<rparr>)
         \<and> length fullAudio = length (concat (murfAudioChunks s))
         \<and> getUint32 4 fullAudio = of_nat (36 + (length fullAudio - 44))
         \<and> getUint32 40 fullAudio = of_nat (length fullAudio - 44)
         \<and> (length fullAudio < 2 ^ 32 + 8 \<longrightarrow>
              unat (getUint32 4 fullAudio) = 36 + (length fullAudio - 44)
              \<and> unat (getUint32 40 fullAudio) = length fullAudio - 44)
         \<and> (\<forall>i < length fullAudio. i \<notin> {4..<8} \<longrightarrow> i \<notin> {40..<44} \<longrightarrow>
              fullAudio ! i = concat (murfAudioChunks s) ! i)"
proof -
  let ?buf = "concat (murfAudioChunks s)"
  have len: "44 \<le> length ?buf" using assms(2,3) by simp
  from patch_sizes_RIFF[OF assms(2,3,4) len]
  obtain out where out: "patch_sizes (murfAudioChunks s) ?buf = Inr out" "length out = length ?buf"
    "getUint32 4 out = of_nat (36 + (length ?buf - 44))"
    "getUint32 40 out = of_nat (length ?buf - 44)"
    "\<forall>i < length ?buf. i \<notin> {4..<8} \<longrightarrow> i \<notin> {40..<44} \<longrightarrow> out ! i = ?buf ! i"
    by blast
  have fin: "finalizeMurfStream s =
      Done (s\<lparr>murfPlaying := False, decode_requests := decode_requests s @ [out]\<rparr>)"
    using assms(1,2) out(1) by (simp add: finalizeMurfStream_def Let_def)
  have exact: "unat (getUint32 4 out) = 36 + (length out - 44)
      \<and> unat (getUint32 40 out) = length out - 44" if "length out < 2 ^ 32 + 8"
  proof -
    have b: "36 + (length ?buf - 44) < 2 ^ LENGTH(32)" "length ?buf - 44 < 2 ^ LENGTH(32)"
      using that len out(2) by simp_all
    have "unat (getUint32 4 out) = 36 + (length ?buf - 44)"
      by (rule of_nat_inverse[OF out(3)[symmetric] b(1)])
    moreover have "unat (getUint32 40 out) = length ?buf - 44"
      by (rule of_nat_inverse[OF out(4)[symmetric] b(2)])
    ultimately show ?thesis by (simp add: out(2))
  qed
  show ?thesis
    using fin out(2,3,4,5) exact by (intro exI[of _ out]) simp
qed

theorem finalizeMurfStream_patches_sizes_witness:
  "murfAudioCtx accumulating \<and> murfAudioChunks accumulating = fragment_a # [[3, 4, 5]]
   \<and> 44 \<le> length fragment_a \<and> take 4 fragment_a = RIFF
   \<and> (\<exists>fullAudio.
         finalizeMurfStream accumulating =
           Done (accumulating\<lparr>murfPlaying := False,
                   decode_requests := decode_requests accumulating @ [fullAudio]\<rparr>)
         \<and> length fullAudio = 49
         \<and> unat (getUint32 4 fullAudio) = 41 \<and> unat (getUint32 40 fullAudio) = 5)"
proof -
  have h1: "murfAudioCtx accumulating"
    by (simp add: accumulating_def)
  have h2: "murfAudioChunks accumulating = fragment_a # [[3, 4, 5]]"
    by (simp add: accumulating_def)
  have h3: "44 \<le> length fragment_a"
    by (simp add: fragment_a_def RIFF_def)
  have h4: "take 4 fragment_a = RIFF"
    by (simp add: fragment_a_def RIFF_def)
  have l: "length (concat (murfAudioChunks accumulating)) = 49"
    by (simp add: h2 fragment_a_def RIFF_def)
  from finalizeMurfStream_patches_sizes[OF h1 h2 h3 h4]
  obtain fullAudio where fa:
    "finalizeMurfStream accumulating =
       Done (accumulating\<lparr>murfPlaying := False,
               decode_requests := decode_requests accumulating @ [fullAudio]\<rparr>)"
    "length fullAudio = length (concat (murfAudioChunks accumulating))"
    "length fullAudio < 2 ^ 32 + 8 \<longrightarrow>
       unat (getUint32 4 fullAudio) = 36 + (length fullAudio - 44)
       \<and> unat (getUint32 40 fullAudio) = length fullAudio - 44"
    by blast
  have l49: "length fullAudio = 49" using fa(2) l by simp
  then have "length fullAudio < 2 ^ 32 + 8" by simp
  with fa(3) have "unat (getUint32 4 fullAudio) = 36 + (length fullAudio - 44)"
    "unat (getUint32 40 fullAudio) = length fullAudio - 44"
    by blast+
  then have "unat (getUint32 4 fullAudio) = 41" "unat (getUint32 40 fullAudio) = 5"
    by (simp_all add: l49)
  with fa(1) l49 show ?thesis using h1 h2 h3 h4 by blast
qed

section \<open>Appending fragments\<close>

lemma on_json_tts_chunk:
  "is_tts_chunk m b64 \<Longrightarrow>
   on_json m s = Some (case (if murfPlaying s then Done s else initMurfStreamPlayback s) of
                         Thrown e s1 \<Rightarrow> Thrown e s1
                       | Done s1 \<Rightarrow> pushMurfAudioChunk b64 s1)"
  by (auto simp: is_tts_chunk_def on_json_def split: parse_result.splits)

lemma is_tts_chunk_tts_chunk: "is_tts_chunk (tts_chunk b64) b64"
  by (simp add: is_tts_chunk_def tts_chunk_def JSON_parse_def)

lemma on_partial_assembler:
  "murfAudioChunks (on_partial raw s) = murfAudioChunks s"
  "murfFirstChunk (on_partial raw s) = murfFirstChunk s"
  "murfPlaying (on_partial raw s) = murfPlaying s"
  by (simp_all add: on_partial_def set_status_def Let_def split: ws_data.split option.split)

lemma push_Done:
  "atob b64 = Inr bytes \<Longrightarrow>
   pushMurfAudioChunk b64 s =
     Done (s\<lparr>murfAudioChunks :=
               murfAudioChunks s @ [if murfFirstChunk s then bytes else strip_duplicate_header bytes],
             murfFirstChunk := False\<rparr>)"
  by (simp add: pushMurfAudioChunk_def strip_duplicate_header_def)

lemma push_Thrown: "atob b64 = Inl e \<Longrightarrow> pushMurfAudioChunk b64 s = Thrown e s"
  by (simp add: pushMurfAudioChunk_def)

lemma onmessage_chunk_playing:
  assumes "is_tts_chunk m b64" "murfPlaying s" "atob b64 = Inr bytes"
  shows "onmessage m s =
     s\<lparr>murfAudioChunks :=
         murfAudioChunks s @ [if murfFirstChunk s then bytes else strip_duplicate_header bytes],
       murfFirstChunk := False\<rparr>"
  using assms by (simp add: onmessage_def on_json_tts_chunk push_Done)

lemma onmessage_chunk_undecodable:
  assumes "is_tts_chunk m b64" "murfPlaying s" "atob b64 = Inl e"
  shows "onmessage m s = on_partial (msg_data m) s"
  using assms by (simp add: onmessage_def on_json_tts_chunk push_Thrown)

lemma onmessage_chunk_start:
  assumes "is_tts_chunk m b64" "\<not> murfPlaying s" "murfAudioCtx s \<or> audio_ctx_supported s"
    "atob b64 = Inr bytes"
  shows "murfAudioChunks (onmessage m s) = [bytes] \<and> murfPlaying (onmessage m s)
     \<and> \<not> murfFirstChunk (onmessage m s)"
  using assms
  by (auto simp: onmessage_def on_json_tts_chunk push_Done initMurfStreamPlayback_def
      set_status_def)

lemma run_chunks_playing:
  "list_all2 is_tts_chunk ms bs \<Longrightarrow> map atob bs = map Inr fs \<Longrightarrow> murfPlaying s
   \<Longrightarrow> \<not> murfFirstChunk s
   \<Longrightarrow> murfAudioChunks (run_messages ms s) = murfAudioChunks s @ map strip_duplicate_header fs"
proof (induction ms bs arbitrary: fs s rule: list_all2_induct)
  case Nil
  then show ?case by (simp add: run_messages_def)
next
  case (Cons m ms b bs)
  from Cons.prems(1) obtain f fs' where fs: "fs = f # fs'" "atob b = Inr f"
    "map atob bs = map Inr fs'"
    by (cases fs) auto
  let ?s1 = "onmessage m s"
  have s1: "?s1 = s\<lparr>murfAudioChunks := murfAudioChunks s @ [strip_duplicate_header f],
                     murfFirstChunk := False\<rparr>"
    using onmessage_chunk_playing[OF Cons.hyps(1) Cons.prems(2) fs(2)] Cons.prems(3) by simp
  have "murfAudioChunks (run_messages ms ?s1) =
      murfAudioChunks ?s1 @ map strip_duplicate_header fs'"
    by (rule Cons.IH[OF fs(3)]) (simp_all add: s1 Cons.prems)
  then show ?case by (simp add: run_messages_def fs s1)
qed

lemma run_chunks_session:
  assumes "list_all2 is_tts_chunk ms bs" "map atob bs = map Inr fs" "ms \<noteq> []"
    "\<not> murfPlaying s" "murfAudioCtx s \<or> audio_ctx_supported s"
  shows "murfAudioChunks (run_messages ms s) = assembled_spec fs"
proof -
  from assms(1,3) obtain m ms' b bs' where ms: "ms = m # ms'" "bs = b # bs'"
    "is_tts_chunk m b" "list_all2 is_tts_chunk ms' bs'"
    by (cases ms; cases bs) auto
  from assms(2) ms(2) obtain f fs' where fs: "fs = f # fs'" "atob b = Inr f"
    "map atob bs' = map Inr fs'"
    by (cases fs) auto
  let ?s1 = "onmessage m s"
  have s1: "murfAudioChunks ?s1 = [f]" "murfPlaying ?s1" "\<not> murfFirstChunk ?s1"
    using onmessage_chunk_start[OF ms(3) assms(4,5) fs(2)] by simp_all
  have "murfAudioChunks (run_messages ms' ?s1) =
      murfAudioChunks ?s1 @ map strip_duplicate_header fs'"
    by (rule run_chunks_playing[OF ms(4) fs(3) s1(2,3)])
  then show ?thesis by (simp add: run_messages_def ms fs s1)
qed

lemma atob_fragment_a: "atob fragment_a_b64 = Inr fragment_a"
  by code_simp

lemma atob_fragment_b: "atob fragment_b_b64 = Inr fragment_b"
  by code_simp

lemma strip_fragment_b: "strip_duplicate_header fragment_b = [7]"
  by code_simp

text \<open>
  C3. \<open>pushMurfAudioChunk\<close> appends the decoded bytes of a fragment unchanged when it is
  the first of its session, when it is shorter than 44 bytes or when it does not begin
  with \<open>RIFF\<close>, and without their first 44 bytes otherwise. Hence the fragments of a
  session, delivered as \<open>tts_chunk\<close> messages to an assembler that is not accumulating,
  are buffered in arrival order as the first fragment whole followed by the later ones
  with a duplicated header removed.
\<close>

theorem pushMurfAudioChunk_strips_duplicate_header:
  "(atob b64 = Inr bytes \<longrightarrow>
      pushMurfAudioChunk b64 s =
        Done (s\<lparr>murfAudioChunks :=
                  murfAudioChunks s @
                    [if \<not> murfFirstChunk s \<and> 44 \<le> length bytes \<and> take 4 bytes = RIFF
                     then drop 44 bytes else bytes],
                murfFirstChunk := False\<rparr>))
   \<and> (list_all2 is_tts_chunk ms bs \<and> map atob bs = map Inr fs \<and> ms \<noteq> []
        \<and> \<not> murfPlaying s \<and> (murfAudioCtx s \<or> audio_ctx_supported s) \<longrightarrow>
      murfAudioChunks (run_messages ms s) = assembled_spec fs
      \<and> concat (murfAudioChunks (run_messages ms s)) =
          hd fs @ concat (map strip_duplicate_header (tl fs)))"
proof (intro conjI impI)
  assume "atob b64 = Inr bytes"
  then show "pushMurfAudioChunk b64 s =
        Done (s\<lparr>murfAudioChunks :=
                  murfAudioChunks s @
                    [if \<not> murfFirstChunk s \<and> 44 \<le> length bytes \<and> take 4 bytes = RIFF
                     then drop 44 bytes else bytes],
                murfFirstChunk := False\<rparr>)"
    by (simp add: pushMurfAudioChunk_def)
next
  assume a: "list_all2 is_tts_chunk ms bs \<and> map atob bs = map Inr fs \<and> ms \<noteq> []
        \<and> \<not> murfPlaying s \<and> (murfAudioCtx s \<or> audio_ctx_supported s)"
  then show r: "murfAudioChunks (run_messages ms s) = assembled_spec fs"
    using run_chunks_session[of ms bs fs s] by blast
  from a have "fs \<noteq> []"
    by (auto simp: list_all2_Nil2 dest: list_all2_lengthD)
  then show "concat (murfAudioChunks (run_messages ms s)) =
          hd fs @ concat (map strip_duplicate_header (tl fs))"
    by (cases fs) (simp_all add: r)
qed

theorem pushMurfAudioChunk_strips_duplicate_header_witness:
  "atob fragment_b_b64 = Inr fragment_b
   \<and> pushMurfAudioChunk fragment_b_b64 accumulating =
       Done (accumulating\<lparr>murfAudioChunks := [fragment_a, [3, 4, 5], [7]],
               murfFirstChunk := False\<rparr>)
   \<and> list_all2 is_tts_chunk [tts_chunk fragment_a_b64, tts_chunk fragment_b_b64]
        [fragment_a_b64, fragment_b_b64]
   \<and> map atob [fragment_a_b64, fragment_b_b64] = map Inr [fragment_a, fragment_b]
   \<and> \<not> murfPlaying page_loaded \<and> audio_ctx_supported page_loaded
   \<and> murfAudioChunks
        (run_messages [tts_chunk fragment_a_b64, tts_chunk fragment_b_b64] page_loaded) =
       [fragment_a, [7]]"
proof -
  have h1: "atob fragment_b_b64 = Inr fragment_b" by (rule atob_fragment_b)
  have l: "44 \<le> length fragment_b \<and> take 4 fragment_b = RIFF \<and> drop 44 fragment_b = [7]"
    by (simp add: fragment_b_def RIFF_def)
  have acc: "\<not> murfFirstChunk accumulating"
    "murfAudioChunks accumulating = [fragment_a, [3, 4, 5]]"
    by (simp_all add: accumulating_def)
  have p: "pushMurfAudioChunk fragment_b_b64 accumulating =
       Done (accumulating\<lparr>murfAudioChunks := [fragment_a, [3, 4, 5], [7]],
               murfFirstChunk := False\<rparr>)"
    using pushMurfAudioChunk_strips_duplicate_header
            [of fragment_b_b64 fragment_b accumulating "[]" "[]" "[]"] h1 l acc
    by simp
  have h2: "list_all2 is_tts_chunk [tts_chunk fragment_a_b64, tts_chunk fragment_b_b64]
        [fragment_a_b64, fragment_b_b64]"
    by (simp add: is_tts_chunk_tts_chunk)
  have h3: "map atob [fragment_a_b64, fragment_b_b64] = map Inr [fragment_a, fragment_b]"
    by (simp add: atob_fragment_a atob_fragment_b)
  have h4: "\<not> murfPlaying page_loaded" "audio_ctx_supported page_loaded"
    by (simp_all add: page_loaded_def)
  have r: "murfAudioChunks
        (run_messages [tts_chunk fragment_a_b64, tts_chunk fragment_b_b64] page_loaded) =
       [fragment_a, [7]]"
    using pushMurfAudioChunk_strips_duplicate_header
            [of "[]" "[]" page_loaded "[tts_chunk fragment_a_b64, tts_chunk fragment_b_b64]"
               "[fragment_a_b64, fragment_b_b64]" "[fragment_a, fragment_b]"] h2 h3 h4
    by (simp add: strip_fragment_b)
  show ?thesis using h1 p h2 h3 h4 r by blast
qed

section \<open>One assembly session at a time\<close>

text \<open>
  C6. A \<open>tts_chunk\<close> message that arrives while \<open>murfPlaying\<close> is set leaves the buffered
  fragments in place, at most appending to them, does not set the first-fragment flag
  again and leaves \<open>murfPlaying\<close> set. A session is begun, with the buffer holding the
  decoded fragment alone, when the message arrives while \<open>murfPlaying\<close> is not set.
\<close>

theorem tts_chunk_keeps_session:
  "(is_tts_chunk m b64 \<and> murfPlaying s \<longrightarrow>
      prefix (murfAudioChunks s) (murfAudioChunks (onmessage m s))
      \<and> length (murfAudioChunks (onmessage m s)) \<le> Suc (length (murfAudioChunks s))
      \<and> (murfFirstChunk (onmessage m s) \<longrightarrow> murfFirstChunk s)
      \<and> murfPlaying (onmessage m s))
   \<and> (is_tts_chunk m b64 \<and> \<not> murfPlaying s \<and> (murfAudioCtx s \<or> audio_ctx_supported s)
        \<and> atob b64 = Inr bytes \<longrightarrow>
      murfAudioChunks (onmessage m s) = [bytes] \<and> murfPlaying (onmessage m s)
      \<and> \<not> murfFirstChunk (onmessage m s))"
proof (intro conjI impI)
  assume a: "is_tts_chunk m b64 \<and> murfPlaying s"
  have "prefix (murfAudioChunks s) (murfAudioChunks (onmessage m s))
      \<and> length (murfAudioChunks (onmessage m s)) \<le> Suc (length (murfAudioChunks s))
      \<and> (murfFirstChunk (onmessage m s) \<longrightarrow> murfFirstChunk s)
      \<and> murfPlaying (onmessage m s)"
  proof (cases "atob b64")
    case (Inl e)
    with a have "onmessage m s = on_partial (msg_data m) s"
      using onmessage_chunk_undecodable[of m b64 s e] by blast
    with a show ?thesis by (simp add: on_partial_assembler)
  next
    case (Inr decoded)
    with a have "onmessage m s =
        s\<lparr>murfAudioChunks :=
            murfAudioChunks s @
              [if murfFirstChunk s then decoded else strip_duplicate_header decoded],
          murfFirstChunk := False\<rparr>"
      using onmessage_chunk_playing[of m b64 s decoded] by blast
    with a show ?thesis by simp
  qed
  then show "prefix (murfAudioChunks s) (murfAudioChunks (onmessage m s))"
    "length (murfAudioChunks (onmessage m s)) \<le> Suc (length (murfAudioChunks s))"
    "murfPlaying (onmessage m s)"
    by simp_all
  assume "murfFirstChunk (onmessage m s)"
  with \<open>_ \<and> _ \<and> (murfFirstChunk (onmessage m s) \<longrightarrow> murfFirstChunk s) \<and> _\<close>
  show "murfFirstChunk s" by simp
next
  assume a: "is_tts_chunk m b64 \<and> \<not> murfPlaying s \<and> (murfAudioCtx s \<or> audio_ctx_supported s)
        \<and> atob b64 = Inr bytes"
  then have r: "murfAudioChunks (onmessage m s) = [bytes] \<and> murfPlaying (onmessage m s)
     \<and> \<not> murfFirstChunk (onmessage m s)"
    using onmessage_chunk_start[of m b64 s bytes] by blast
  from r show "murfAudioChunks (onmessage m s) = [bytes]" by simp
  from r show "murfPlaying (onmessage m s)" by simp
  from r show "\<not> murfFirstChunk (onmessage m s)" by simp
qed

theorem tts_chunk_keeps_session_witness:
  "is_tts_chunk (tts_chunk fragment_b_b64) fragment_b_b64 \<and> murfPlaying accumulating
   \<and> murfAudioChunks (onmessage (tts_chunk fragment_b_b64) accumulating) =
       [fragment_a, [3, 4, 5], [7]]
   \<and> prefix (murfAudioChunks accumulating)
        (murfAudioChunks (onmessage (tts_chunk fragment_b_b64) accumulating))
   \<and> \<not> murfFirstChunk (onmessage (tts_chunk fragment_b_b64) accumulating)
   \<and> murfPlaying (onmessage (tts_chunk fragment_b_b64) accumulating)
   \<and> \<not> murfPlaying page_loaded \<and> audio_ctx_supported page_loaded
   \<and> atob fragment_b_b64 = Inr fragment_b
   \<and> murfAudioChunks (onmessage (tts_chunk fragment_b_b64) page_loaded) = [fragment_b]"
proof -
  have h1: "is_tts_chunk (tts_chunk fragment_b_b64) fragment_b_b64"
    by (rule is_tts_chunk_tts_chunk)
  have h2: "murfPlaying accumulating" "\<not> murfFirstChunk accumulating"
    "murfAudioChunks accumulating = [fragment_a, [3, 4, 5]]"
    by (simp_all add: accumulating_def)
  have h3: "\<not> murfPlaying page_loaded" "audio_ctx_supported page_loaded"
    by (simp_all add: page_loaded_def)
  have h4: "atob fragment_b_b64 = Inr fragment_b" by (rule atob_fragment_b)
  have e: "murfAudioChunks (onmessage (tts_chunk fragment_b_b64) accumulating) =
       [fragment_a, [3, 4, 5], [7]]"
    by (simp add: onmessage_chunk_playing[OF h1 h2(1) h4] h2 strip_fragment_b)
  from tts_chunk_keeps_session
         [of "tts_chunk fragment_b_b64" fragment_b_b64 accumulating fragment_b] h1 h2
  have k: "prefix (murfAudioChunks accumulating)
        (murfAudioChunks (onmessage (tts_chunk fragment_b_b64) accumulating))"
    "\<not> murfFirstChunk (onmessage (tts_chunk fragment_b_b64) accumulating)"
    "murfPlaying (onmessage (tts_chunk fragment_b_b64) accumulating)"
    by simp_all
  from tts_chunk_keeps_session
         [of "tts_chunk fragment_b_b64" fragment_b_b64 page_loaded fragment_b] h1 h3 h4
  have n: "murfAudioChunks (onmessage (tts_chunk fragment_b_b64) page_loaded) = [fragment_b]"
    by simp
  show ?thesis using h1 h2(1) e k h3 h4 n by blast
qed

section \<open>Normalisation of transcripts\<close>

text \<open>
  C4. \<open>normalizeTranscript\<close> is not idempotent: on \<open>a\<close>, space, U+200B, space, \<open>b\<close> it
  returns \<open>a\<close>, two spaces, \<open>b\<close>, because the zero-width character is deleted after the
  whitespace runs were collapsed; normalising that result gives \<open>a\<close>, one space, \<open>b\<close>.
\<close>

theorem normalizeTranscript_not_idempotent:
  "normalizeTranscript [0x61, 0x20, 0x200B, 0x20, 0x62] = [0x61, 0x20, 0x20, 0x62]
   \<and> normalizeTranscript (normalizeTranscript [0x61, 0x20, 0x200B, 0x20, 0x62]) = [0x61, 0x20, 0x62]
   \<and> normalizeTranscript (normalizeTranscript [0x61, 0x20, 0x200B, 0x20, 0x62])
       \<noteq> normalizeTranscript [0x61, 0x20, 0x200B, 0x20, 0x62]"
  by (simp add: normalizeTranscript_def trim_def strip_zero_width_def is_ws_def is_zero_width_def)

section \<open>Text of a new bubble\<close>

text \<open>
  C10, as stated, fails: for the agent text \<open>" hi "\<close>, which is not blank, the bubble
  shows \<open>"hi"\<close>, not the given text.
\<close>

theorem addMsg_keeps_text_counterexample:
  "trim (to_String (JStr (js '' hi ''))) \<noteq> []
   \<and> addMsg (js ''agent'') (JStr (js '' hi '')) None (Some []) =
       (Some 0, Some [\<lparr>row_role = js ''agent'', bubble_text = js ''hi'', bubble_final = False,
                       play_button = None\<rparr>])
   \<and> js ''hi'' \<noteq> js '' hi ''"
  by (simp add: addMsg_def bubble_content_def trim_def is_ws_def js_def)

text \<open>
  C10, amended. When the chat list exists, \<open>addMsg(role, text)\<close> appends one row of that
  role whose bubble shows \<open>[Unrecognized]\<close> for the role \<open>user\<close> and \<open>[No response]\<close> for any
  other role if the text is falsy (\<open>null\<close>, empty) or blank once trimmed, and otherwise
  the text with its leading and trailing whitespace removed.
\<close>

theorem addMsg_bubble_text:
  "\<exists>r. addMsg role text audioUrl (Some rows) = (Some (length rows), Some (rows @ [r]))
     \<and> row_role r = role \<and> \<not> bubble_final r
     \<and> bubble_text r =
         (if \<not> truthy text \<or> trim (to_String text) = []
          then (if role = js ''user'' then js ''[Unrecognized]'' else js ''[No response]'')
          else trim (to_String text))"
  by (simp add: addMsg_def bubble_content_def placeholder_def)

theorem addMsg_bubble_text_witness:
  "(\<exists>r. addMsg (js ''user'') (JStr (js ''  '')) None (Some []) = (Some 0, Some [r])
      \<and> bubble_text r = js ''[Unrecognized]'')
   \<and> (\<exists>r. addMsg (js ''agent'') JNull None (Some []) = (Some 0, Some [r])
      \<and> bubble_text r = js ''[No response]'')
   \<and> (\<exists>r. addMsg (js ''agent'') (JStr (js '' hi '')) None (Some []) = (Some 0, Some [r])
      \<and> bubble_text r = js ''hi'')"
proof -
  have t: "trim (js ''  '') = []" "trim (js '' hi '') = js ''hi''" "js ''hi'' \<noteq> []"
    "js ''agent'' \<noteq> js ''user''" "js '' hi '' \<noteq> []"
    by (simp_all add: trim_def is_ws_def js_def)
  obtain r1 where r1: "addMsg (js ''user'') (JStr (js ''  '')) None (Some []) =
      (Some (length ([] :: row list)), Some ([] @ [r1]))"
    "bubble_text r1 =
      (if \<not> truthy (JStr (js ''  '')) \<or> trim (to_String (JStr (js ''  ''))) = []
       then (if js ''user'' = js ''user'' then js ''[Unrecognized]'' else js ''[No response]'')
       else trim (to_String (JStr (js ''  ''))))"
    using addMsg_bubble_text[of "js ''user''" "JStr (js ''  '')" None "[]"] by blast
  obtain r2 where r2: "addMsg (js ''agent'') JNull None (Some []) =
      (Some (length ([] :: row list)), Some ([] @ [r2]))"
    "bubble_text r2 =
      (if \<not> truthy JNull \<or> trim (to_String JNull) = []
       then (if js ''agent'' = js ''user'' then js ''[Unrecognized]'' else js ''[No response]'')
       else trim (to_String JNull))"
    using addMsg_bubble_text[of "js ''agent''" JNull None "[]"] by blast
  obtain r3 where r3: "addMsg (js ''agent'') (JStr (js '' hi '')) None (Some []) =
      (Some (length ([] :: row list)), Some ([] @ [r3]))"
    "bubble_text r3 =
      (if \<not> truthy (JStr (js '' hi '')) \<or> trim (to_String (JStr (js '' hi ''))) = []
       then (if js ''agent'' = js ''user'' then js ''[Unrecognized]'' else js ''[No response]'')
       else trim (to_String (JStr (js '' hi ''))))"
    using addMsg_bubble_text[of "js ''agent''" "JStr (js '' hi '')" None "[]"] by blast
  have a: "addMsg (js ''user'') (JStr (js ''  '')) None (Some []) = (Some 0, Some [r1])
      \<and> bubble_text r1 = js ''[Unrecognized]''"
    using r1 t by simp
  have b: "addMsg (js ''agent'') JNull None (Some []) = (Some 0, Some [r2])
      \<and> bubble_text r2 = js ''[No response]''"
    using r2 t by simp
  have c: "addMsg (js ''agent'') (JStr (js '' hi '')) None (Some []) = (Some 0, Some [r3])
      \<and> bubble_text r3 = js ''hi''"
    using r3 t by simp
  show ?thesis using a b c by blast
qed

section \<open>Retries of the single-shot playback\<close>

lemma retryPlay_4: "retryPlay url plays 4 s = ([], s\<lparr>pendingAutoPlayUrl := Some url\<rparr>)"
  by (simp add: retryPlay.simps)

lemma retryPlay_3:
  "retryPlay url plays 3 s =
     (if plays 3 then ([750], play_started s)
      else ([750], s\<lparr>pendingAutoPlayUrl := Some url\<rparr>))"
  by (simp add: retryPlay.simps[of _ _ 3] retryPlay_4)

lemma retryPlay_2:
  "retryPlay url plays 2 s =
     (if plays 2 then ([500], play_started s)
      else if plays 3 then ([500, 750], play_started s)
      else ([500, 750], s\<lparr>pendingAutoPlayUrl := Some url\<rparr>))"
  by (simp add: retryPlay.simps[of _ _ 2] retryPlay_3)

lemma retryPlay_1:
  "retryPlay url plays (Suc 0) s =
     (if plays (Suc 0) then ([250], play_started s)
      else if plays 2 then ([250, 500], play_started s)
      else if plays 3 then ([250, 500, 750], play_started s)
      else ([250, 500, 750], s\<lparr>pendingAutoPlayUrl := Some url\<rparr>))"
  by (simp add: retryPlay.simps[of _ _ "Suc 0"] retryPlay_2 numeral_2_eq_2[symmetric])

lemma playAgentAudio_handler:
  assumes "agentAudio s = Some a" "url \<noteq> []" "audioUnlocked s \<or> force"
  shows "playAgentAudio url force now s =
     s\<lparr>agentAudio := Some (a\<lparr>el_playing := False, el_src := cache_bust url now,
                             el_onloadeddata := Some url\<rparr>)\<rparr>"
  using assms by (auto simp: playAgentAudio_def)

lemma onloadeddata_request:
  assumes "agentAudio s = Some a" "url \<noteq> []" "audioUnlocked s \<or> force"
  shows "onloadeddata plays (playAgentAudio url force now s) =
    (if plays 0 then ([], play_started (playAgentAudio url force now s))
     else if plays (Suc 0) then ([250], play_started (playAgentAudio url force now s))
     else if plays 2 then ([250, 500], play_started (playAgentAudio url force now s))
     else if plays 3 then ([250, 500, 750], play_started (playAgentAudio url force now s))
     else ([250, 500, 750], (playAgentAudio url force now s)\<lparr>pendingAutoPlayUrl := Some url\<rparr>))"
  by (simp add: playAgentAudio_handler[OF assms] onloadeddata_def retryPlay_1)

text \<open>
  C8. For a request that reaches the audio element (the element exists, the URL is not
  empty, and the gate is unlocked or the request is forced): when every \<open>play()\<close> is
  rejected, the retries are three, after 250, 500 and 750 ms, and the URL is then stored
  in \<open>pendingAutoPlayUrl\<close>; when attempt \<open>k\<close> is the first to succeed, the retries are
  those numbered 1 to \<open>k\<close>, retry \<open>i\<close> after \<open>250 * i\<close> ms, none follows and the pending URL
  is not written. In every case at most three retries are made.
\<close>

theorem retryPlay_bounded:
  assumes "agentAudio s = Some a" and "url \<noteq> []" and "audioUnlocked s \<or> force"
  shows "((\<forall>k\<le>3. \<not> plays k) \<longrightarrow>
            onloadeddata plays (playAgentAudio url force now s) =
              ([250, 500, 750], (playAgentAudio url force now s)\<lparr>pendingAutoPlayUrl := Some url\<rparr>))
       \<and> (\<forall>k\<le>3. plays k \<and> (\<forall>j<k. \<not> plays j) \<longrightarrow>
            onloadeddata plays (playAgentAudio url force now s) =
              (map (\<lambda>i. 250 * i) [1..<Suc k], play_started (playAgentAudio url force now s)))
       \<and> length (fst (onloadeddata plays (playAgentAudio url force now s))) \<le> 3"
proof (intro conjI allI impI)
  note r = onloadeddata_request[OF assms, of plays now]
  show "length (fst (onloadeddata plays (playAgentAudio url force now s))) \<le> 3"
    by (simp add: r)
  {
    assume "\<forall>k\<le>3. \<not> plays k"
    then have "\<not> plays 0" "\<not> plays (Suc 0)" "\<not> plays 2" "\<not> plays 3"
      by simp_all
    then show "onloadeddata plays (playAgentAudio url force now s) =
        ([250, 500, 750], (playAgentAudio url force now s)\<lparr>pendingAutoPlayUrl := Some url\<rparr>)"
      by (simp add: r)
  }
  fix k :: nat
  assume k: "k \<le> 3" and p: "plays k \<and> (\<forall>j<k. \<not> plays j)"
  from k consider "k = 0" | "k = Suc 0" | "k = 2" | "k = 3"
    by linarith
  then show "onloadeddata plays (playAgentAudio url force now s) =
      (map (\<lambda>i. 250 * i) [1..<Suc k], play_started (playAgentAudio url force now s))"
  proof cases
    case 1
    with p show ?thesis by (simp add: r)
  next
    case 2
    with p have "\<not> plays 0" "plays (Suc 0)" by simp_all
    then show ?thesis by (simp add: r 2)
  next
    case 3
    with p have "\<not> plays 0" "\<not> plays (Suc 0)" "plays 2" by simp_all
    moreover have "map (\<lambda>i. 250 * i) [1..<Suc 2] = [250, 500 :: nat]"
      by (simp add: upt_rec)
    ultimately show ?thesis by (simp add: r 3 del: upt_Suc)
  next
    case 4
    with p have "\<not> plays 0" "\<not> plays (Suc 0)" "\<not> plays 2" "plays 3" by simp_all
    moreover have "map (\<lambda>i. 250 * i) [1..<Suc 3] = [250, 500, 750 :: nat]"
      by (simp add: upt_rec)
    ultimately show ?thesis by (simp add: r 4 del: upt_Suc)
  qed
qed

theorem retryPlay_bounded_witness:
  "agentAudio page_loaded \<noteq> None \<and> reply_url \<noteq> []
   \<and> onloadeddata never_plays (playAgentAudio reply_url True [] page_loaded) =
       ([250, 500, 750],
        (playAgentAudio reply_url True [] page_loaded)\<lparr>pendingAutoPlayUrl := Some reply_url\<rparr>)
   \<and> plays_at_second_retry 2 \<and> \<not> plays_at_second_retry 0 \<and> \<not> plays_at_second_retry 1
   \<and> onloadeddata plays_at_second_retry (playAgentAudio reply_url True [] page_loaded) =
       ([250, 500], play_started (playAgentAudio reply_url True [] page_loaded))"
proof -
  have h1: "agentAudio page_loaded =
      Some \<lparr>el_src = [], el_playing = False, el_onloadeddata = None\<rparr>"
    by (simp add: page_loaded_def)
  have h2: "reply_url \<noteq> []"
    by (simp add: reply_url_def js_def)
  have h3: "audioUnlocked page_loaded \<or> True"
    by simp
  note t = retryPlay_bounded[OF h1 h2 h3]
  have n: "\<forall>k\<le>3. \<not> never_plays k"
    by (simp add: never_plays_def)
  have a: "onloadeddata never_plays (playAgentAudio reply_url True [] page_loaded) =
       ([250, 500, 750],
        (playAgentAudio reply_url True [] page_loaded)\<lparr>pendingAutoPlayUrl := Some reply_url\<rparr>)"
    using t[of never_plays "[]"] n by blast
  have p: "plays_at_second_retry 2" "\<not> plays_at_second_retry 0" "\<not> plays_at_second_retry 1"
    "\<forall>j<2. \<not> plays_at_second_retry j"
    by (simp_all add: plays_at_second_retry_def)
  have u: "map (\<lambda>i. 250 * i) [1..<Suc 2] = [250, 500 :: nat]"
    by (simp add: upt_rec)
  have "(2::nat) \<le> 3" by simp
  with t[of plays_at_second_retry "[]"] p(1,4)
  have "onloadeddata plays_at_second_retry (playAgentAudio reply_url True [] page_loaded) =
       (map (\<lambda>i. 250 * i) [1..<Suc 2],
        play_started (playAgentAudio reply_url True [] page_loaded))"
    by blast
  then have b: "onloadeddata plays_at_second_retry (playAgentAudio reply_url True [] page_loaded) =
       ([250, 500], play_started (playAgentAudio reply_url True [] page_loaded))"
    by (simp only: u)
  show ?thesis using h1 h2 a p(1,2,3) b by simp
qed

section \<open>The autoplay gate\<close>

text \<open>
  C9. A second call of \<open>unlockAudioIfNeeded\<close> changes nothing; after any call the gate
  is unlocked, whether or not the silent probe could be played. Unlocking a locked gate
  with nothing pending only sets the flag; with a pending URL it clears the pending
  request and starts that one request. Of two requests deferred while the gate was
  locked, the later one is the one started.
\<close>

theorem unlockAudioIfNeeded_idempotent:
  "unlockAudioIfNeeded p2 n2 (unlockAudioIfNeeded p1 n1 s) = unlockAudioIfNeeded p1 n1 s
   \<and> audioUnlocked (unlockAudioIfNeeded p1 n1 s)
   \<and> (\<not> audioUnlocked s \<and> pendingAutoPlayUrl s = None \<longrightarrow>
        unlockAudioIfNeeded p1 n1 s = s\<lparr>audioUnlocked := True\<rparr>)
   \<and> (\<not> audioUnlocked s \<and> pendingAutoPlayUrl s = Some u \<and> u \<noteq> [] \<longrightarrow>
        unlockAudioIfNeeded p1 n1 s =
          playAgentAudio u True n1 (s\<lparr>audioUnlocked := True, pendingAutoPlayUrl := None\<rparr>))
   \<and> (\<not> audioUnlocked s \<and> agentAudio s = Some a \<and> u1 \<noteq> [] \<and> u2 \<noteq> [] \<longrightarrow>
        unlockAudioIfNeeded p1 n1 (playAgentAudio u2 False t2 (playAgentAudio u1 False t1 s)) =
          s\<lparr>audioUnlocked := True, pendingAutoPlayUrl := None,
            agentAudio := Some (a\<lparr>el_playing := False, el_src := cache_bust u2 n1,
                                  el_onloadeddata := Some u2\<rparr>)\<rparr>)"
  by (auto simp: unlockAudioIfNeeded_def flush_pending_def playAgentAudio_def
      split: option.splits)

theorem unlockAudioIfNeeded_idempotent_witness:
  "\<not> audioUnlocked page_loaded \<and> pendingAutoPlayUrl page_loaded = None
   \<and> unlockAudioIfNeeded True [] page_loaded = page_loaded\<lparr>audioUnlocked := True\<rparr>
   \<and> unlockAudioIfNeeded False [] (unlockAudioIfNeeded True [] page_loaded) =
       unlockAudioIfNeeded True [] page_loaded
   \<and> reply_url \<noteq> []
   \<and> pendingAutoPlayUrl (playAgentAudio reply_url False [] page_loaded) = Some reply_url
   \<and> pendingAutoPlayUrl
        (unlockAudioIfNeeded False [] (playAgentAudio reply_url False [] page_loaded)) = None
   \<and> unlockAudioIfNeeded True []
        (playAgentAudio reply_url False [] (playAgentAudio (js ''/old.mp3'') False [] page_loaded)) =
       page_loaded\<lparr>audioUnlocked := True, pendingAutoPlayUrl := None,
         agentAudio := Some \<lparr>el_src = cache_bust reply_url [], el_playing = False,
                              el_onloadeddata = Some reply_url\<rparr>\<rparr>"
proof -
  have h: "\<not> audioUnlocked page_loaded" "pendingAutoPlayUrl page_loaded = None"
    "agentAudio page_loaded = Some \<lparr>el_src = [], el_playing = False, el_onloadeddata = None\<rparr>"
    by (simp_all add: page_loaded_def)
  have u: "reply_url \<noteq> []" "js ''/old.mp3'' \<noteq> []"
    by (simp_all add: reply_url_def js_def)
  let ?d = "playAgentAudio reply_url False [] page_loaded"
  have d: "\<not> audioUnlocked ?d" "pendingAutoPlayUrl ?d = Some reply_url"
    by (simp_all add: playAgentAudio_def h u)
  note t1 = unlockAudioIfNeeded_idempotent
              [of False "[]" True "[]" page_loaded reply_url
                  "\<lparr>el_src = [], el_playing = False, el_onloadeddata = None\<rparr>"
                  "js ''/old.mp3''" reply_url "[]" "[]"]
  note t2 = unlockAudioIfNeeded_idempotent
              [of False "[]" False "[]" ?d reply_url
                  "\<lparr>el_src = [], el_playing = False, el_onloadeddata = None\<rparr>"
                  "js ''/old.mp3''" reply_url "[]" "[]"]
  have a: "unlockAudioIfNeeded True [] page_loaded = page_loaded\<lparr>audioUnlocked := True\<rparr>"
    using t1 h by blast
  have b: "unlockAudioIfNeeded False [] (unlockAudioIfNeeded True [] page_loaded) =
       unlockAudioIfNeeded True [] page_loaded"
    using t1 by blast
  have "unlockAudioIfNeeded False [] ?d =
      playAgentAudio reply_url True [] (?d\<lparr>audioUnlocked := True, pendingAutoPlayUrl := None\<rparr>)"
    using t2 d u(1) by blast
  then have c: "pendingAutoPlayUrl (unlockAudioIfNeeded False [] ?d) = None"
    by (simp add: playAgentAudio_def h u)
  have e: "unlockAudioIfNeeded True []
        (playAgentAudio reply_url False [] (playAgentAudio (js ''/old.mp3'') False [] page_loaded)) =
       page_loaded\<lparr>audioUnlocked := True, pendingAutoPlayUrl := None,
         agentAudio := Some \<lparr>el_src = cache_bust reply_url [], el_playing = False,
                              el_onloadeddata = Some reply_url\<rparr>\<rparr>"
    using t1 h u by simp
  show ?thesis using h(1,2) a b u(1) d(2) c e by blast
qed

section \<open>Microphone permission denied\<close>

text \<open>
  C1, as stated, fails: on a freshly loaded page with all keys present, \<open>toggleMic\<close>
  creates the socket before it asks for the microphone, so a socket exists (connecting)
  while the answer is awaited, and after the denial it is closing, not absent.
\<close>

theorem toggleMic_denied_counterexample:
  "streamWS page_loaded = None
   \<and> toggleMic all_keys True [] page_loaded =
       AwaitGetUserMedia (page_loaded\<lparr>audioUnlocked := True, streamWS := Some Connecting\<rparr>)
   \<and> streamWS (toggleMic_run all_keys True [] (Rejected (js ''Permission denied'')) page_loaded) =
       Some Closing"
  by (simp add: toggleMic_run_def toggleMic_def toggleMic_resume_def start_failed_def
      requireKeysOrPrompt_def missing_keys_def all_keys_def unlockAudioIfNeeded_def
      flush_pending_def stop_tracks_def set_status_def page_loaded_def js_def)

lemma unlock_keeps_stream:
  "streaming (unlockAudioIfNeeded p n s) = streaming s"
  "llmStatus (unlockAudioIfNeeded p n s) = llmStatus s"
  "streamMedia (unlockAudioIfNeeded p n s) = streamMedia s"
  "capture_graph (unlockAudioIfNeeded p n s) = capture_graph s"
  "isMicRecording (unlockAudioIfNeeded p n s) = isMicRecording s"
  by (simp_all add: unlockAudioIfNeeded_def flush_pending_def playAgentAudio_def
      split: option.split)

lemma toggleMic_start:
  assumes "missing_keys (js ''mic'') keys = []" and "\<not> streaming s"
  shows "toggleMic keys probe_ok now s =
     AwaitGetUserMedia
       ((unlockAudioIfNeeded probe_ok now (s\<lparr>settingsPromptMsg := None\<rparr>))
          \<lparr>streamWS := Some Connecting, ws_teardown_on_close := False,
           liveRow := None, lastPartial := [], lastDisplayedFinal := []\<rparr>)"
  using assms by (simp add: toggleMic_def requireKeysOrPrompt_def Let_def unlock_keeps_stream)

lemma start_failed_fields:
  "streamWS (start_failed e s) = map_option ws_close (streamWS s)"
  "llmStatus (start_failed e s) =
     map_option (\<lambda>h. h @ [js ''Mic error: '' @ error_message e]) (llmStatus s)"
  "streamMedia (start_failed e s) = map_option (\<lambda>_. False) (streamMedia s)"
  "capture_graph (start_failed e s) = capture_graph s"
  "streaming (start_failed e s) = streaming s"
  "isMicRecording (start_failed e s) = isMicRecording s"
  "ws_teardown_on_close (start_failed e s) = ws_teardown_on_close s"
  by (simp_all add: start_failed_def stop_tracks_def set_status_def)

lemma ws_onopen_fields:
  "streamWS s = Some Connecting \<Longrightarrow> streamWS (ws_onopen s) = Some Open"
  "llmStatus (ws_onopen s) = llmStatus s"
  "streamMedia (ws_onopen s) = streamMedia s"
  "capture_graph (ws_onopen s) = capture_graph s"
  "streaming (ws_onopen s) = streaming s"
  "isMicRecording (ws_onopen s) = isMicRecording s"
  "ws_teardown_on_close (ws_onopen s) = ws_teardown_on_close s"
  by (simp_all add: ws_onopen_def)

lemma ws_onclose_plain:
  "\<not> ws_teardown_on_close s \<Longrightarrow> streamWS s = Some w \<Longrightarrow>
   ws_onclose s = s\<lparr>streamWS := Some Closed\<rparr>"
  by (simp add: ws_onclose_def)

lemma set_status_capture:
  "capture_fields (set_status t s) = capture_fields s"
  "streamWS (set_status t s) = streamWS s"
  by (simp_all add: set_status_def capture_fields_def)

lemma init_capture:
  "capture_fields (outcome_state (initMurfStreamPlayback s)) = capture_fields s"
  "streamWS (outcome_state (initMurfStreamPlayback s)) = streamWS s"
  by (simp_all add: initMurfStreamPlayback_def set_status_capture)
     (simp_all add: capture_fields_def)

lemma push_capture:
  "capture_fields (outcome_state (pushMurfAudioChunk b s)) = capture_fields s"
  "streamWS (outcome_state (pushMurfAudioChunk b s)) = streamWS s"
  by (simp_all add: pushMurfAudioChunk_def capture_fields_def split: sum.split)

lemma finalize_capture:
  "capture_fields (outcome_state (finalizeMurfStream s)) = capture_fields s"
  "streamWS (outcome_state (finalizeMurfStream s)) = streamWS s"
  by (simp_all add: finalizeMurfStream_def capture_fields_def Let_def split: sum.split)

lemma on_partial_capture:
  "capture_fields (on_partial raw s) = capture_fields s"
  "streamWS (on_partial raw s) = streamWS s"
  by (simp_all add: on_partial_def set_status_def capture_fields_def Let_def
      split: ws_data.split option.split)

lemma on_turn_end_capture:
  "capture_fields (outcome_state (on_turn_end obj s)) = capture_fields s"
  "streamWS (outcome_state (on_turn_end obj s)) = streamWS s"
  by (simp_all add: on_turn_end_def set_status_def capture_fields_def Let_def
      split: sum.split option.split jsval.split)

lemma on_json_capture:
  "on_json m s = Some r \<Longrightarrow>
   capture_fields (outcome_state r) = capture_fields s \<and> streamWS (outcome_state r) = streamWS s"
proof (cases "JSON_parse m")
  case JsonSyntaxError
  then show "on_json m s = Some r \<Longrightarrow> ?thesis" by (auto simp: on_json_def)
next
  case JsonOther
  then show "on_json m s = Some r \<Longrightarrow> ?thesis" by (simp add: on_json_def)
next
  case (JsonObject obj)
  assume r: "on_json m s = Some r"
  let ?i = "if murfPlaying s then Done s else initMurfStreamPlayback s"
  have i: "capture_fields (outcome_state ?i) = capture_fields s"
    "streamWS (outcome_state ?i) = streamWS s"
    by (simp_all add: init_capture)
  have c: "capture_fields (outcome_state (case ?i of Thrown e s1 \<Rightarrow> Thrown e s1
              | Done s1 \<Rightarrow> pushMurfAudioChunk b s1)) = capture_fields s
      \<and> streamWS (outcome_state (case ?i of Thrown e s1 \<Rightarrow> Thrown e s1
              | Done s1 \<Rightarrow> pushMurfAudioChunk b s1)) = streamWS s" for b
    using i by (cases ?i) (simp_all add: push_capture)
  from r JsonObject consider
      b where "r = (case ?i of Thrown e s1 \<Rightarrow> Thrown e s1 | Done s1 \<Rightarrow> pushMurfAudioChunk b s1)"
    | "r = finalizeMurfStream s" | "r = on_turn_end obj s"
    by (auto simp: on_json_def split: jsval.splits if_splits)
  then show ?thesis
  proof cases
    case 1
    then show ?thesis using c[of b] by simp
  next
    case 2
    then show ?thesis by (simp add: finalize_capture)
  next
    case 3
    then show ?thesis by (simp add: on_turn_end_capture)
  qed
qed

lemma onmessage_capture:
  "capture_fields (onmessage m s) = capture_fields s"
  "streamWS (onmessage m s) = streamWS s"
proof -
  have "capture_fields (onmessage m s) = capture_fields s \<and> streamWS (onmessage m s) = streamWS s"
  proof (cases "on_json m s")
    case None
    then show ?thesis by (simp add: onmessage_def on_partial_capture)
  next
    case (Some r)
    from on_json_capture[OF Some] show ?thesis
      by (cases r) (simp_all add: onmessage_def Some on_partial_capture)
  qed
  then show "capture_fields (onmessage m s) = capture_fields s"
    "streamWS (onmessage m s) = streamWS s"
    by simp_all
qed

lemma ws_onopen_capture:
  "capture_fields (ws_onopen s) = capture_fields s"
  "llmStatus (ws_onopen s) = llmStatus s"
  "streamWS s = Some w \<Longrightarrow> streamWS (ws_onopen s) = Some (if w = Connecting then Open else w)"
  by (auto simp: ws_onopen_def capture_fields_def split: ws_state.splits)

lemma ws_onclose_capture:
  assumes "\<not> ws_teardown_on_close s"
  shows "capture_fields (ws_onclose s) = capture_fields s"
    "llmStatus (ws_onclose s) = llmStatus s"
    "streamWS s = Some w \<Longrightarrow> streamWS (ws_onclose s) = Some Closed"
  using assms by (simp_all add: ws_onclose_def capture_fields_def)

lemma run_socket_events_capture:
  "streamWS s = Some w \<Longrightarrow> \<not> ws_teardown_on_close s \<Longrightarrow>
   capture_fields (run_socket_events evs s) = capture_fields s
   \<and> (\<exists>w'. streamWS (run_socket_events evs s) = Some w'
          \<and> (w' = Closed \<longleftrightarrow> w = Closed \<or> SocketClosed \<in> set evs)
          \<and> (w' = Closing \<longrightarrow> w = Closing))
   \<and> ((\<forall>e \<in> set evs. \<not> carries_message e) \<longrightarrow>
        llmStatus (run_socket_events evs s) = llmStatus s)"
proof (induction evs arbitrary: s w)
  case Nil
  then show ?case by (simp add: run_socket_events_def)
next
  case (Cons e evs)
  let ?s1 = "socket_event_handler e s"
  have t: "ws_teardown_on_close t = snd (snd (snd (snd (capture_fields t))))" for t
    by (simp add: capture_fields_def)
  have c1: "capture_fields ?s1 = capture_fields s"
    using Cons.prems(2)
    by (cases e) (simp_all add: ws_onopen_capture ws_onclose_capture onmessage_capture)
  then have n1: "\<not> ws_teardown_on_close ?s1" using Cons.prems(2) by (simp add: t)
  obtain w1 where w1: "streamWS ?s1 = Some w1"
    "w1 = Closed \<longleftrightarrow> w = Closed \<or> e = SocketClosed" "w1 = Closing \<longrightarrow> w = Closing"
    using Cons.prems
    by (cases e) (auto simp: ws_onopen_capture ws_onclose_capture onmessage_capture)
  have st: "\<not> carries_message e \<Longrightarrow> llmStatus ?s1 = llmStatus s"
    using Cons.prems(2) by (cases e) (simp_all add: ws_onopen_capture ws_onclose_capture)
  have r: "run_socket_events (e # evs) s = run_socket_events evs ?s1"
    by (simp add: run_socket_events_def)
  from Cons.IH[OF w1(1) n1] c1 w1(2,3) st show ?case
    unfolding r by auto
qed

text \<open>
  C1, amended. When the keys are present and no session is streaming, \<open>toggleMic\<close> creates
  the socket and then awaits the microphone. Let the socket open, deliver messages and
  close in any order before the answer, \<open>toggleMic\<close> not being called again meanwhile.
  If the permission is then denied, the socket is not left connecting or open: it is
  closed if it had closed by itself and closing otherwise, and its close handler changes
  nothing else. The catch block writes exactly one status, \<open>Mic error: \<close> followed by the
  message, after those that the messages wrote; when no message arrived it is the only
  status written since the call. No stream is acquired (one left from an earlier session
  only has its tracks stopped), the capture graph is not built, and the streaming and
  recording flags are not set.
\<close>

theorem toggleMic_denied:
  assumes "missing_keys (js ''mic'') keys = []" and "\<not> streaming s"
  shows "\<exists>s1. toggleMic keys probe_ok now s = AwaitGetUserMedia s1
           \<and> streamWS s1 = Some Connecting
           \<and> (\<forall>evs s2.
                 s2 = toggleMic_resume (Rejected msg) (run_socket_events evs s1) \<longrightarrow>
                 streamWS s2 = Some (if SocketClosed \<in> set evs then Closed else Closing)
                 \<and> llmStatus s2 =
                     map_option (\<lambda>h. h @ [js ''Mic error: '' @ msg])
                       (llmStatus (run_socket_events evs s1))
                 \<and> ((\<forall>e \<in> set evs. \<not> carries_message e) \<longrightarrow>
                      llmStatus s2 =
                        map_option (\<lambda>h. h @ [js ''Mic error: '' @ msg]) (llmStatus s))
                 \<and> streamMedia s2 = map_option (\<lambda>_. False) (streamMedia s)
                 \<and> capture_graph s2 = capture_graph s
                 \<and> \<not> streaming s2
                 \<and> isMicRecording s2 = isMicRecording s
                 \<and> ws_onclose s2 = s2\<lparr>streamWS := Some Closed\<rparr>)"
proof -
  define s1 where "s1 =
     (unlockAudioIfNeeded probe_ok now (s\<lparr>settingsPromptMsg := None\<rparr>))
          \<lparr>streamWS := Some Connecting, ws_teardown_on_close := False,
           liveRow := None, lastPartial := [], lastDisplayedFinal := []\<rparr>"
  have t: "toggleMic keys probe_ok now s = AwaitGetUserMedia s1"
    unfolding s1_def by (rule toggleMic_start[OF assms])
  have k: "streamWS s1 = Some Connecting" "\<not> ws_teardown_on_close s1"
    "streaming s1 = streaming s" "llmStatus s1 = llmStatus s"
    "streamMedia s1 = streamMedia s" "capture_graph s1 = capture_graph s"
    "isMicRecording s1 = isMicRecording s"
    by (simp_all add: s1_def unlock_keeps_stream)
  have r: "streamWS s2 = Some (if SocketClosed \<in> set evs then Closed else Closing)
        \<and> llmStatus s2 =
            map_option (\<lambda>h. h @ [js ''Mic error: '' @ msg]) (llmStatus (run_socket_events evs s1))
        \<and> ((\<forall>e \<in> set evs. \<not> carries_message e) \<longrightarrow>
             llmStatus s2 = map_option (\<lambda>h. h @ [js ''Mic error: '' @ msg]) (llmStatus s))
        \<and> streamMedia s2 = map_option (\<lambda>_. False) (streamMedia s)
        \<and> capture_graph s2 = capture_graph s
        \<and> \<not> streaming s2
        \<and> isMicRecording s2 = isMicRecording s
        \<and> ws_onclose s2 = s2\<lparr>streamWS := Some Closed\<rparr>"
    if s2: "s2 = toggleMic_resume (Rejected msg) (run_socket_events evs s1)"
    for evs s2
  proof -
    let ?m = "run_socket_events evs s1"
    from run_socket_events_capture[OF k(1,2), of evs]
    obtain w' where m: "capture_fields ?m = capture_fields s1" "streamWS ?m = Some w'"
      "w' = Closed \<longleftrightarrow> SocketClosed \<in> set evs" "w' \<noteq> Closing"
      "(\<forall>e \<in> set evs. \<not> carries_message e) \<longrightarrow> llmStatus ?m = llmStatus s1"
      by auto
    from m(1) k have f: "\<not> ws_teardown_on_close ?m" "streaming ?m = streaming s"
      "streamMedia ?m = streamMedia s" "capture_graph ?m = capture_graph s"
      "isMicRecording ?m = isMicRecording s"
      by (simp_all add: capture_fields_def)
    have e: "s2 = start_failed (MediaError msg) ?m"
      by (simp add: s2 toggleMic_resume_def)
    have w: "streamWS s2 = Some (if SocketClosed \<in> set evs then Closed else Closing)"
      using m(2,3,4) by (cases w') (simp_all add: e start_failed_fields)
    have c: "ws_onclose s2 = s2\<lparr>streamWS := Some Closed\<rparr>"
      by (rule ws_onclose_plain[OF _ w]) (simp add: e start_failed_fields f(1))
    have st: "llmStatus s2 = map_option (\<lambda>h. h @ [js ''Mic error: '' @ msg]) (llmStatus ?m)"
      by (simp add: e start_failed_fields)
    have st0: "llmStatus s2 = map_option (\<lambda>h. h @ [js ''Mic error: '' @ msg]) (llmStatus s)"
      if "\<forall>e \<in> set evs. \<not> carries_message e"
      using that m(5) k(4) st by simp
    have rest: "streamMedia s2 = map_option (\<lambda>_. False) (streamMedia s)"
      "capture_graph s2 = capture_graph s" "\<not> streaming s2"
      "isMicRecording s2 = isMicRecording s"
      using f assms(2) by (simp_all add: e start_failed_fields)
    show ?thesis using w c st st0 rest by blast
  qed
  from t k(1) r show ?thesis by blast
qed

theorem toggleMic_denied_witness:
  "missing_keys (js ''mic'') all_keys = [] \<and> \<not> streaming page_loaded
   \<and> \<not> carries_message SocketOpened
   \<and> (\<exists>s1. toggleMic all_keys True [] page_loaded = AwaitGetUserMedia s1
        \<and> streamWS (run_socket_events [SocketOpened] s1) = Some Open
        \<and> streamWS (toggleMic_resume (Rejected (js ''Permission denied''))
                      (run_socket_events [SocketOpened] s1)) = Some Closing
        \<and> llmStatus (toggleMic_resume (Rejected (js ''Permission denied''))
                       (run_socket_events [SocketOpened] s1)) =
            Some [js ''Mic error: Permission denied'']
        \<and> streamMedia (toggleMic_resume (Rejected (js ''Permission denied''))
                         (run_socket_events [SocketOpened] s1)) = None
        \<and> \<not> capture_graph (toggleMic_resume (Rejected (js ''Permission denied''))
                              (run_socket_events [SocketOpened] s1))
        \<and> \<not> streaming (toggleMic_resume (Rejected (js ''Permission denied''))
                          (run_socket_events [SocketOpened] s1)))"
proof -
  have h1: "missing_keys (js ''mic'') all_keys = []"
    by (simp add: missing_keys_def all_keys_def js_def)
  have h2: "\<not> streaming page_loaded"
    by (simp add: page_loaded_def)
  have p: "llmStatus page_loaded = Some []" "streamMedia page_loaded = None"
    "\<not> capture_graph page_loaded"
    by (simp_all add: page_loaded_def)
  have m: "js ''Mic error: '' @ js ''Permission denied'' = js ''Mic error: Permission denied''"
    by (simp add: js_def)
  from toggleMic_denied[OF h1 h2, of True "[]" "js ''Permission denied''"]
  obtain s1 where s1: "toggleMic all_keys True [] page_loaded = AwaitGetUserMedia s1"
    "streamWS s1 = Some Connecting"
    and r: "\<forall>evs s2.
        s2 = toggleMic_resume (Rejected (js ''Permission denied'')) (run_socket_events evs s1) \<longrightarrow>
        streamWS s2 = Some (if SocketClosed \<in> set evs then Closed else Closing)
        \<and> llmStatus s2 =
            map_option (\<lambda>h. h @ [js ''Mic error: '' @ js ''Permission denied''])
              (llmStatus (run_socket_events evs s1))
        \<and> ((\<forall>e \<in> set evs. \<not> carries_message e) \<longrightarrow>
             llmStatus s2 =
               map_option (\<lambda>h. h @ [js ''Mic error: '' @ js ''Permission denied''])
                 (llmStatus page_loaded))
        \<and> streamMedia s2 = map_option (\<lambda>_. False) (streamMedia page_loaded)
        \<and> capture_graph s2 = capture_graph page_loaded
        \<and> \<not> streaming s2
        \<and> isMicRecording s2 = isMicRecording page_loaded
        \<and> ws_onclose s2 = s2\<lparr>streamWS := Some Closed\<rparr>"
    by blast
  define d where
    "d = toggleMic_resume (Rejected (js ''Permission denied'')) (run_socket_events [SocketOpened] s1)"
  have o: "streamWS (run_socket_events [SocketOpened] s1) = Some Open"
    by (simp add: run_socket_events_def ws_onopen_def s1(2))
  have n: "\<forall>e \<in> set [SocketOpened]. \<not> carries_message e" "SocketClosed \<notin> set [SocketOpened]"
    by simp_all
  have dd: "d = toggleMic_resume (Rejected (js ''Permission denied''))
                 (run_socket_events [SocketOpened] s1)"
    by (simp add: d_def)
  have c: "(if SocketClosed \<in> set [SocketOpened] then Closed else Closing) = Closing"
    by simp
  from r[rule_format, of d "[SocketOpened]", OF dd, unfolded c] n(1)
  have q: "streamWS d = Some Closing"
    "llmStatus d =
       map_option (\<lambda>h. h @ [js ''Mic error: '' @ js ''Permission denied'']) (llmStatus page_loaded)"
    "streamMedia d = map_option (\<lambda>_. False) (streamMedia page_loaded)"
    "capture_graph d = capture_graph page_loaded" "\<not> streaming d"
    by blast+
  then have v: "streamWS d = Some Closing" "llmStatus d = Some [js ''Mic error: Permission denied'']"
    "streamMedia d = None" "\<not> capture_graph d" "\<not> streaming d"
    by (simp_all add: p m)
  have "toggleMic all_keys True [] page_loaded = AwaitGetUserMedia s1
        \<and> streamWS (run_socket_events [SocketOpened] s1) = Some Open
        \<and> streamWS d = Some Closing
        \<and> llmStatus d = Some [js ''Mic error: Permission denied'']
        \<and> streamMedia d = None \<and> \<not> capture_graph d \<and> \<not> streaming d"
    using s1(1) o v by simp
  then show ?thesis using h1 h2 unfolding d_def by auto
qed

section \<open>Conversion of the captured samples\<close>

lemma le16_word:
  "ucast (ucast w :: byte) OR push_bit 8 (ucast (ucast (drop_bit 8 w) :: byte)) = (w :: 16 word)"
  (is "?lhs = w")
proof (rule bit_word_eqI)
  fix n :: nat
  assume "n < LENGTH(16)"
  then have n: "n < 16" by simp
  consider "n < 8" | "8 \<le> n" by linarith
  then show "bit ?lhs n = bit w n"
    using n by cases (auto simp: bit_simps)
qed

lemma setInt16_ok:
  "off + 2 \<le> length buf \<Longrightarrow>
   setInt16 off v buf = Inr (buf[off := ucast (ToInt16 v), off + 1 := ucast (drop_bit 8 (ToInt16 v))])"
  by (simp add: setInt16_def)

lemma convert_loop_ok:
  "2 * (i + length xs) \<le> length buf \<Longrightarrow>
   \<exists>out. convert_loop xs i buf = Inr out \<and> length out = length buf
     \<and> (\<forall>j < length xs. getInt16 (2 * (i + j)) out = ToInt16 (pcm_sample (xs ! j)))
     \<and> (\<forall>k < 2 * i. out ! k = buf ! k)"
proof (induction xs arbitrary: i buf)
  case Nil
  then show ?case by simp
next
  case (Cons x xs)
  let ?w = "ToInt16 (pcm_sample x)"
  let ?b1 = "buf[i * 2 := ucast ?w, i * 2 + 1 := ucast (drop_bit 8 ?w)]"
  have s: "setInt16 (i * 2) (pcm_sample x) buf = Inr ?b1"
    using Cons.prems by (intro setInt16_ok) simp
  have "2 * (Suc i + length xs) \<le> length ?b1" using Cons.prems by simp
  from Cons.IH[OF this] obtain out where out: "convert_loop xs (Suc i) ?b1 = Inr out"
    "length out = length ?b1"
    "\<forall>j < length xs. getInt16 (2 * (Suc i + j)) out = ToInt16 (pcm_sample (xs ! j))"
    "\<forall>k < 2 * Suc i. out ! k = ?b1 ! k"
    by blast
  have c: "convert_loop (x # xs) i buf = Inr out" using out(1) by (simp add: s)
  have l: "length out = length buf" using out(2) by simp
  have lo: "out ! (2 * i) = ucast ?w" and hi: "out ! Suc (2 * i) = ucast (drop_bit 8 ?w)"
    using out(4) Cons.prems by (simp_all add: mult.commute)
  have g0: "getInt16 (2 * i) out = ?w"
    by (simp add: getInt16_def lo hi le16_word)
  have g: "getInt16 (2 * (i + j)) out = ToInt16 (pcm_sample ((x # xs) ! j))"
    if "j < length (x # xs)" for j
  proof (cases j)
    case 0
    then show ?thesis using g0 by simp
  next
    case (Suc j')
    with that have "j' < length xs" by simp
    with out(3) have "getInt16 (2 * (Suc i + j')) out = ToInt16 (pcm_sample (xs ! j'))" by blast
    then show ?thesis by (simp add: Suc)
  qed
  have p: "out ! k = buf ! k" if "k < 2 * i" for k
  proof -
    have "out ! k = ?b1 ! k" using out(4) that by simp
    also have "\<dots> = buf ! k" using that by simp
    finally show ?thesis .
  qed
  show ?case using c l g p by blast
qed

lemma floor_bounds:
  fixes b :: rat
  assumes "0 \<le> b" "b \<le> of_int m"
  shows "0 \<le> \<lfloor>b\<rfloor>" "\<lfloor>b\<rfloor> \<le> m"
  using assms by (simp_all add: floor_le_iff le_floor_iff)

lemma sint_ToInt16:
  assumes "- 32768 \<le> t" "t \<le> 32767"
  shows "sint (word_of_int t :: 16 word) = t"
  using assms by (simp add: sint_sbintrunc' signed_take_bit_int_eq_self)

lemma trunc_negative_scaled:
  fixes c :: rat
  assumes "- 1 \<le> c" "c < 0"
  shows "- 32768 \<le> trunc_toward_zero (c * 32768)" "trunc_toward_zero (c * 32768) \<le> 32767"
proof -
  define v where "v = - (c * 32768)"
  have v: "0 \<le> v" "v \<le> of_int 32768" using assms by (simp_all add: v_def)
  have f: "0 \<le> \<lfloor>v\<rfloor>" "\<lfloor>v\<rfloor> \<le> 32768" by (rule floor_bounds[OF v])+
  have "c * 32768 < 0" using assms by simp
  then have t: "trunc_toward_zero (c * 32768) = - \<lfloor>v\<rfloor>"
    by (simp add: trunc_toward_zero_def v_def)
  show "- 32768 \<le> trunc_toward_zero (c * 32768)" "trunc_toward_zero (c * 32768) \<le> 32767"
    unfolding t using f by linarith+
qed

lemma trunc_positive_scaled:
  fixes c :: rat
  assumes "0 \<le> c" "c \<le> 1"
  shows "- 32768 \<le> trunc_toward_zero (c * 32767)" "trunc_toward_zero (c * 32767) \<le> 32767"
proof -
  define v where "v = c * 32767"
  have v: "0 \<le> v" "v \<le> of_int 32767" using assms by (simp_all add: v_def)
  have f: "0 \<le> \<lfloor>v\<rfloor>" "\<lfloor>v\<rfloor> \<le> 32767" by (rule floor_bounds[OF v])+
  have "\<not> v < 0" using v(1) by simp
  then have t: "trunc_toward_zero (c * 32767) = \<lfloor>v\<rfloor>"
    by (simp add: trunc_toward_zero_def v_def)
  show "- 32768 \<le> trunc_toward_zero (c * 32767)" "trunc_toward_zero (c * 32767) \<le> 32767"
    unfolding t using f by linarith+
qed

lemma pcm_sample_Finite:
  "sint (ToInt16 (pcm_sample (Finite x))) =
     trunc_toward_zero (if max (- 1) (min 1 x) < 0 then max (- 1) (min 1 x) * 32768
                        else max (- 1) (min 1 x) * 32767)"
proof -
  define c where "c = max (- 1) (min 1 x)"
  have c: "- 1 \<le> c" "c \<le> 1" by (simp_all add: c_def)
  have s: "Math_max (Finite (- 1)) (Math_min (Finite 1) (Finite x)) = Finite c"
    by (simp add: c_def)
  show ?thesis
  proof (cases "c < 0")
    case True
    then have p: "pcm_sample (Finite x) = Finite (c * 32768)"
      unfolding pcm_sample_def s Let_def by simp
    have "sint (ToInt16 (pcm_sample (Finite x))) = trunc_toward_zero (c * 32768)"
      unfolding p ToInt16.simps
      by (rule sint_ToInt16) (rule trunc_negative_scaled[OF c(1) True])+
    then show ?thesis using True by (simp only: c_def[symmetric] if_True)
  next
    case False
    then have p: "pcm_sample (Finite x) = Finite (c * 32767)"
      unfolding pcm_sample_def s Let_def by simp
    have "0 \<le> c" using False by simp
    then have "sint (ToInt16 (pcm_sample (Finite x))) = trunc_toward_zero (c * 32767)"
      unfolding p ToInt16.simps
      by (intro sint_ToInt16 trunc_positive_scaled c)
    then show ?thesis using False by (simp only: c_def[symmetric] if_False)
  qed
qed

lemma pcm_sample_special:
  "sint (ToInt16 (pcm_sample PosInfinity)) = 32767"
  "sint (ToInt16 (pcm_sample NegInfinity)) = - 32768"
  "sint (ToInt16 (pcm_sample NaN)) = 0"
  by (simp_all add: pcm_sample_def trunc_toward_zero_def)

text \<open>
  C7. \<open>processor.onaudioprocess\<close> builds a buffer of two bytes for each input sample, in
  the order of the samples, and sends it when the socket is open. The 16-bit
  little-endian field at offset \<open>2 * i\<close> holds, as a signed integer, the product of the
  sample clamped to \<open>[-1, 1]\<close> with \<open>0x8000\<close> when the clamped sample is negative and with
  \<open>0x7FFF\<close> otherwise, truncated towards zero as \<open>setInt16\<close> does; the product is within
  the signed 16-bit range, so nothing wraps. An infinite sample is clamped, and \<open>NaN\<close> is
  stored as 0.
\<close>

theorem onaudioprocess_frame:
  "\<exists>buffer. onaudioprocess inputData s = Inr (buffer, streamWS s = Some Open)
     \<and> length buffer = 2 * length inputData
     \<and> (\<forall>i < length inputData.
          sint (getInt16 (2 * i) buffer) =
            (case inputData ! i of
               Finite x \<Rightarrow>
                 trunc_toward_zero
                   (if max (- 1) (min 1 x) < 0 then max (- 1) (min 1 x) * 32768
                    else max (- 1) (min 1 x) * 32767)
             | PosInfinity \<Rightarrow> 32767
             | NegInfinity \<Rightarrow> - 32768
             | NaN \<Rightarrow> 0))"
proof -
  let ?buf = "replicate (length inputData * 2) (0 :: byte)"
  have "2 * (0 + length inputData) \<le> length ?buf" by simp
  from convert_loop_ok[OF this] obtain out where out:
    "convert_loop inputData 0 ?buf = Inr out" "length out = length ?buf"
    "\<forall>j < length inputData. getInt16 (2 * (0 + j)) out = ToInt16 (pcm_sample (inputData ! j))"
    by blast
  have a: "onaudioprocess inputData s = Inr (out, streamWS s = Some Open)"
    by (simp add: onaudioprocess_def out(1))
  have l: "length out = 2 * length inputData" using out(2) by simp
  have v: "sint (getInt16 (2 * i) out) =
            (case inputData ! i of
               Finite x \<Rightarrow>
                 trunc_toward_zero
                   (if max (- 1) (min 1 x) < 0 then max (- 1) (min 1 x) * 32768
                    else max (- 1) (min 1 x) * 32767)
             | PosInfinity \<Rightarrow> 32767
             | NegInfinity \<Rightarrow> - 32768
             | NaN \<Rightarrow> 0)" if "i < length inputData" for i
  proof -
    from out(3) that have g: "getInt16 (2 * i) out = ToInt16 (pcm_sample (inputData ! i))"
      by simp
    show ?thesis
      unfolding g
      by (cases "inputData ! i") (simp_all only: number.case pcm_sample_Finite pcm_sample_special)
  qed
  show ?thesis using a l v by blast
qed

theorem onaudioprocess_frame_witness:
  "\<exists>buffer. onaudioprocess four_samples page_loaded = Inr (buffer, False)
     \<and> length buffer = 8
     \<and> sint (getInt16 0 buffer) = 16383
     \<and> sint (getInt16 2 buffer) = - 16384
     \<and> sint (getInt16 4 buffer) = 32767
     \<and> sint (getInt16 6 buffer) = 0"
proof -
  from onaudioprocess_frame[of four_samples page_loaded]
  obtain buffer where b:
    "onaudioprocess four_samples page_loaded = Inr (buffer, streamWS page_loaded = Some Open)"
    "length buffer = 2 * length four_samples"
    "\<forall>i < length four_samples.
          sint (getInt16 (2 * i) buffer) =
            (case four_samples ! i of
               Finite x \<Rightarrow>
                 trunc_toward_zero
                   (if max (- 1) (min 1 x) < 0 then max (- 1) (min 1 x) * 32768
                    else max (- 1) (min 1 x) * 32767)
             | PosInfinity \<Rightarrow> 32767
             | NegInfinity \<Rightarrow> - 32768
             | NaN \<Rightarrow> 0)"
    by blast
  have n: "length four_samples = 4" by (simp add: four_samples_def)
  have w: "streamWS page_loaded \<noteq> Some Open" by (simp add: page_loaded_def)
  have f: "\<lfloor>32767 / 2 :: rat\<rfloor> = 16383"
    by (rule floor_unique) simp_all
  have t: "trunc_toward_zero (32767 / 2) = 16383"
    "trunc_toward_zero (- 16384) = - 16384"
    by (simp_all add: trunc_toward_zero_def f)
  from b(3)[rule_format, of 0] n have "sint (getInt16 (2 * 0) buffer) = 16383"
    by (simp add: four_samples_def t)
  moreover from b(3)[rule_format, of 1] n have "sint (getInt16 (2 * 1) buffer) = - 16384"
    by (simp add: four_samples_def t)
  moreover from b(3)[rule_format, of 2] n have "sint (getInt16 (2 * 2) buffer) = 32767"
    by (simp add: four_samples_def trunc_toward_zero_def)
  moreover from b(3)[rule_format, of 3] n have "sint (getInt16 (2 * 3) buffer) = 0"
    by (simp add: four_samples_def)
  ultimately show ?thesis using b(1,2) n w by (intro exI[of _ buffer]) simp
qed

section \<open>Partial transcripts and the end of a turn\<close>

lemma dropWhile_snoc_keep: "\<not> P x \<Longrightarrow> \<exists>ys. dropWhile P (zs @ [x]) = ys @ [x]"
  by (induction zs) auto

lemma trim_idem: "trim (trim s) = trim s"
proof -
  define a where "a = dropWhile is_ws s"
  define d where "d = dropWhile is_ws (rev a)"
  have t: "trim s = rev d" by (simp add: trim_def a_def d_def)
  show ?thesis
  proof (cases "d = []")
    case True
    show ?thesis unfolding t True by (simp add: trim_def)
  next
    case False
    then have an: "a \<noteq> []" by (auto simp: d_def)
    then obtain x a' where a: "a = x # a'" by (cases a) auto
    have "\<not> is_ws (hd a)" using an unfolding a_def by (rule hd_dropWhile)
    then have nx: "\<not> is_ws x" by (simp add: a)
    obtain ys where ys: "d = ys @ [x]"
      using dropWhile_snoc_keep[of is_ws x "rev a'"] nx by (auto simp: d_def a)
    have hd_d: "\<not> is_ws (hd d)" using False unfolding d_def by (rule hd_dropWhile)
    have 1: "dropWhile is_ws (rev d) = rev d" by (simp add: ys nx)
    have 2: "dropWhile is_ws d = d" using hd_d False by (simp add: dropWhile_eq_self_iff)
    show ?thesis unfolding t by (simp add: trim_def 1 2)
  qed
qed

lemma trim_normalizeTranscript: "trim (normalizeTranscript p) = normalizeTranscript p"
  by (simp add: normalizeTranscript_def trim_idem)

lemma blank_normalizes_empty:
  assumes "trim p = []"
  shows "normalizeTranscript p = []"
proof -
  have d: "dropWhile is_ws p = []"
  proof (rule ccontr)
    assume n: "dropWhile is_ws p \<noteq> []"
    then have "\<not> is_ws (hd (dropWhile is_ws p))" by (rule hd_dropWhile)
    moreover from assms have "\<forall>x\<in>set (dropWhile is_ws p). is_ws x" by (simp add: trim_def)
    ultimately show False using n hd_in_set by blast
  qed
  show ?thesis
  proof (cases p)
    case Nil
    then show ?thesis by (simp add: normalizeTranscript_def strip_zero_width_def trim_def)
  next
    case (Cons c cs)
    have c: "is_ws c"
      using d unfolding Cons by (cases "is_ws c") simp_all
    then have dc: "dropWhile is_ws cs = []"
      using d unfolding Cons by (simp only: dropWhile.simps if_True)
    have "replace_ws_runs p = [0x20]"
      unfolding Cons by (simp only: replace_ws_runs.simps c dc if_True)
    then show ?thesis
      by (simp add: normalizeTranscript_def strip_zero_width_def trim_def is_ws_def is_zero_width_def)
  qed
qed

lemma onmessage_plain:
  "is_plain_text m p \<Longrightarrow> onmessage m s = on_partial (TextData p) s"
  by (auto simp: is_plain_text_def onmessage_def on_json_def JSON_parse_def)

lemma bubble_content_normalized:
  "normalizeTranscript p \<noteq> [] \<Longrightarrow>
   bubble_content role (JStr (normalizeTranscript p)) = normalizeTranscript p"
  by (simp add: bubble_content_def trim_normalizeTranscript)

lemma on_partial_live:
  assumes "live_state rows s"
  shows "live_state rows (on_partial (TextData p) s)
     \<and> lastPartial (on_partial (TextData p) s) =
         (if trim p = [] then lastPartial s else normalizeTranscript p)
     \<and> (liveRow (on_partial (TextData p) s) = None \<longleftrightarrow>
          liveRow s = None \<and> normalizeTranscript p = [])"
proof (cases "trim p = []")
  case True
  then show ?thesis using assms by (simp add: on_partial_def blank_normalizes_empty)
next
  case False
  show ?thesis
  proof (cases "normalizeTranscript p = lastPartial s")
    case True
    with False assms show ?thesis
      by (auto simp: on_partial_def live_state_def split: option.splits)
  next
    case ne: False
    show ?thesis
    proof (cases "liveRow s")
      case None
      with assms have s: "lastPartial s = []" "chatMessages s = Some rows"
        by (simp_all add: live_state_def)
      with ne have n: "normalizeTranscript p \<noteq> []" by simp
      show ?thesis
        using False ne None s n
        by (simp add: on_partial_def live_state_def Let_def addMsg_def set_status_def
            bubble_content_normalized)
    next
      case (Some i)
      with assms have s: "i = length rows"
        "chatMessages s = Some (rows @ [\<lparr>row_role = js ''user'', bubble_text = lastPartial s,
                               bubble_final = False, play_button = None\<rparr>])"
        by (auto simp: live_state_def split: option.splits)
      show ?thesis
        using False ne Some s
        by (simp add: on_partial_def live_state_def Let_def set_bubble_text_def set_status_def)
    qed
  qed
qed


lemma run_messages_snoc: "run_messages (ms @ [m]) s = onmessage m (run_messages ms s)"
  by (simp add: run_messages_def)

lemma run_partials_live:
  "list_all2 is_plain_text ms ps \<Longrightarrow> live_state rows s \<Longrightarrow>
   live_state rows (run_messages ms s)
   \<and> lastPartial (run_messages ms s) =
       (if not_blank ps = [] then lastPartial s else normalizeTranscript (last (not_blank ps)))
   \<and> (liveRow (run_messages ms s) = None \<longleftrightarrow>
        liveRow s = None \<and> (\<forall>p \<in> set ps. normalizeTranscript p = []))"
proof (induction ms arbitrary: ps rule: rev_induct)
  case Nil
  then show ?case by (simp add: run_messages_def not_blank_def)
next
  case (snoc m ms)
  from snoc.prems(1) obtain ps' p where ps: "ps = ps' @ [p]" "list_all2 is_plain_text ms ps'"
    "is_plain_text m p"
    by (auto simp: list_all2_append1 list_all2_Cons1)
  let ?s1 = "run_messages ms s"
  from snoc.IH[OF ps(2) snoc.prems(2)]
  have ih: "live_state rows ?s1"
    "lastPartial ?s1 =
       (if not_blank ps' = [] then lastPartial s else normalizeTranscript (last (not_blank ps')))"
    "liveRow ?s1 = None \<longleftrightarrow> liveRow s = None \<and> (\<forall>p \<in> set ps'. normalizeTranscript p = [])"
    by simp_all
  have step: "run_messages (ms @ [m]) s = on_partial (TextData p) ?s1"
    by (simp add: run_messages_snoc onmessage_plain[OF ps(3)])
  from on_partial_live[OF ih(1), of p]
  have st: "live_state rows (on_partial (TextData p) ?s1)"
    "lastPartial (on_partial (TextData p) ?s1) =
         (if trim p = [] then lastPartial ?s1 else normalizeTranscript p)"
    "liveRow (on_partial (TextData p) ?s1) = None \<longleftrightarrow>
          liveRow ?s1 = None \<and> normalizeTranscript p = []"
    by simp_all
  have B: "lastPartial (on_partial (TextData p) ?s1) =
       (if not_blank ps = [] then lastPartial s else normalizeTranscript (last (not_blank ps)))"
  proof (cases "trim p = []")
    case True
    then have "not_blank ps = not_blank ps'" by (simp add: not_blank_def ps(1))
    then show ?thesis using True st(2) ih(2) by simp
  next
    case False
    then have "not_blank ps = not_blank ps' @ [p]" by (simp add: not_blank_def ps(1))
    then show ?thesis using False st(2) by simp
  qed
  have C: "liveRow (on_partial (TextData p) ?s1) = None \<longleftrightarrow>
        liveRow s = None \<and> (\<forall>p \<in> set ps. normalizeTranscript p = [])"
    using st(3) ih(3) by (auto simp: ps(1))
  show ?case
    unfolding step using st(1) B C by blast
qed

lemma onmessage_turn_end:
  assumes "is_turn_end_without_transcript e"
  shows "\<exists>obj. o_transcript obj = JUndefined \<and>
     onmessage e s = (case on_turn_end obj s of Done s1 \<Rightarrow> s1
                      | Thrown x s1 \<Rightarrow> on_partial (msg_data e) s1)"
proof -
  from assms obtain obj where obj: "JSON_parse e = JsonObject obj"
    "o_type obj = JStr (js ''turn_end'')" "o_transcript obj = JUndefined"
    by (auto simp: is_turn_end_without_transcript_def split: parse_result.splits)
  have ne: "js ''turn_end'' \<noteq> js ''tts_chunk''" "js ''turn_end'' \<noteq> js ''tts_done''"
    by (simp_all add: js_def)
  have "on_json e s = Some (on_turn_end obj s)"
    using obj(1,2) ne by (simp add: on_json_def split: jsval.split)
  then show ?thesis using obj(3) by (auto simp: onmessage_def split: outcome.splits)
qed

lemma on_turn_end_live:
  assumes "o_transcript obj = JUndefined" and "liveRow s = Some (length rows)"
    and "chatMessages s = Some (rows @ [r])" and "bubble_text r = lastPartial s"
  shows "\<exists>s1 extra. on_turn_end obj s = Done s1
     \<and> chatMessages s1 = Some (rows @ r\<lparr>bubble_final := True\<rparr> # extra)
     \<and> (\<forall>x \<in> set extra. row_role x = js ''agent'') \<and> length extra \<le> 1
     \<and> liveRow s1 = None \<and> lastPartial s1 = []"
proof -
  have u: "(if lastPartial s \<noteq> [] then
              s\<lparr>chatMessages := set_bubble_text (length rows) (lastPartial s) (chatMessages s)\<rparr>
            else s) = s"
    using assms(3,4) by (simp add: set_bubble_text_def)
  have m: "mark_final (length rows) (chatMessages s) = Some (rows @ [r\<lparr>bubble_final := True\<rparr>])"
    using assms(3) by (simp add: mark_final_def)
  show ?thesis
    using assms(1,2) m
    by (simp add: on_turn_end_def u Let_def set_status_def addMsg_def)
qed

text \<open>
  C5, as stated, fails: after the partials \<open>"hi"\<close> and \<open>" "\<close> and a \<open>turn_end\<close> without
  transcript, the finalized user row shows \<open>"hi"\<close>, while the normalization of the last
  partial is empty.
\<close>

theorem turn_end_last_partial_counterexample:
  "chatMessages
     (run_messages [partial_message (js ''hi''), partial_message (js '' ''), turn_end_message]
        page_loaded) =
     Some [\<lparr>row_role = js ''user'', bubble_text = js ''hi'', bubble_final = True,
             play_button = None\<rparr>]
   \<and> normalizeTranscript (js '' '') = []
   \<and> js ''hi'' \<noteq> normalizeTranscript (js '' '')"
  by code_simp

text \<open>
  C5, amended. At the start of an utterance (no live row, no partial remembered) on a
  page that has the chat list, let plain-text messages \<open>P1..Pn\<close>, of which at least one
  normalizes to a text that is not empty, be followed by a \<open>turn_end\<close> event without
  transcript. Then one user row has been added after the rows that were there, it is
  marked final, and it shows the normalization of the last \<open>Pi\<close> that is not blank:
  messages of whitespace only are skipped by the handler. Only the agent's reply, if any,
  follows that row, and the handler's variables are reset.
\<close>

theorem turn_end_shows_last_partial:
  assumes "chatMessages s = Some rows" and "liveRow s = None" and "lastPartial s = []"
    and "list_all2 is_plain_text ms ps"
    and "\<exists>p \<in> set ps. normalizeTranscript p \<noteq> []"
    and "is_turn_end_without_transcript e"
  shows "\<exists>r extra.
           chatMessages (run_messages (ms @ [e]) s) = Some (rows @ r # extra)
         \<and> row_role r = js ''user'' \<and> bubble_final r
         \<and> bubble_text r = normalizeTranscript (last (not_blank ps))
         \<and> (\<forall>x \<in> set extra. row_role x = js ''agent'') \<and> length extra \<le> 1
         \<and> liveRow (run_messages (ms @ [e]) s) = None
         \<and> lastPartial (run_messages (ms @ [e]) s) = []"
proof -
  let ?s1 = "run_messages ms s"
  have l0: "live_state rows s"
    using assms(1,2,3) by (simp add: live_state_def)
  from assms(5) obtain q where q: "q \<in> set ps" "normalizeTranscript q \<noteq> []" by blast
  then have "trim q \<noteq> []" using blank_normalizes_empty by blast
  with q(1) have nb: "not_blank ps \<noteq> []"
    by (auto simp: not_blank_def filter_empty_conv)
  from run_partials_live[OF assms(4) l0] nb q
  have s1: "live_state rows ?s1"
    "lastPartial ?s1 = normalizeTranscript (last (not_blank ps))"
    "liveRow ?s1 \<noteq> None"
    by auto
  define r0 where "r0 = \<lparr>row_role = js ''user'', bubble_text = lastPartial ?s1,
                          bubble_final = False, play_button = None\<rparr>"
  from s1(1,3) have lv: "liveRow ?s1 = Some (length rows)" "chatMessages ?s1 = Some (rows @ [r0])"
    by (auto simp: live_state_def r0_def split: option.splits)
  have b: "bubble_text r0 = lastPartial ?s1" by (simp add: r0_def)
  from onmessage_turn_end[OF assms(6), of ?s1] obtain obj where obj:
    "o_transcript obj = JUndefined"
    "onmessage e ?s1 = (case on_turn_end obj ?s1 of Done s2 \<Rightarrow> s2
                        | Thrown x s2 \<Rightarrow> on_partial (msg_data e) s2)"
    by blast
  from on_turn_end_live[OF obj(1) lv b] obtain s2 extra where s2:
    "on_turn_end obj ?s1 = Done s2"
    "chatMessages s2 = Some (rows @ r0\<lparr>bubble_final := True\<rparr> # extra)"
    "\<forall>x \<in> set extra. row_role x = js ''agent''" "length extra \<le> 1"
    "liveRow s2 = None" "lastPartial s2 = []"
    by blast
  have e: "run_messages (ms @ [e]) s = s2"
    by (simp add: run_messages_snoc obj(2) s2(1))
  have r: "row_role (r0\<lparr>bubble_final := True\<rparr>) = js ''user''"
    "bubble_final (r0\<lparr>bubble_final := True\<rparr>)"
    "bubble_text (r0\<lparr>bubble_final := True\<rparr>) = normalizeTranscript (last (not_blank ps))"
    by (simp_all add: r0_def s1(2))
  show ?thesis
    unfolding e using s2(2,3,4,5,6) r by blast
qed

theorem turn_end_shows_last_partial_witness:
  "chatMessages page_loaded = Some [] \<and> liveRow page_loaded = None
   \<and> lastPartial page_loaded = []
   \<and> list_all2 is_plain_text
        [partial_message (js ''hi''), partial_message (js '' ''), partial_message (js ''hi   there '')]
        [js ''hi'', js '' '', js ''hi   there '']
   \<and> normalizeTranscript (js ''hi'') \<noteq> []
   \<and> is_turn_end_without_transcript turn_end_message
   \<and> (\<exists>r extra.
         chatMessages
           (run_messages
              ([partial_message (js ''hi''), partial_message (js '' ''),
                partial_message (js ''hi   there '')] @ [turn_end_message]) page_loaded) =
           Some ([] @ r # extra)
         \<and> row_role r = js ''user'' \<and> bubble_final r \<and> bubble_text r = js ''hi there'')"
proof -
  have h: "chatMessages page_loaded = Some []" "liveRow page_loaded = None"
    "lastPartial page_loaded = []"
    by (simp_all add: page_loaded_def)
  have h4: "list_all2 is_plain_text
        [partial_message (js ''hi''), partial_message (js '' ''), partial_message (js ''hi   there '')]
        [js ''hi'', js '' '', js ''hi   there '']"
    by (simp add: is_plain_text_def partial_message_def)
  have n: "normalizeTranscript (js ''hi'') \<noteq> []"
    by code_simp
  then have h5: "\<exists>p \<in> set [js ''hi'', js '' '', js ''hi   there '']. normalizeTranscript p \<noteq> []"
    by simp
  have h6: "is_turn_end_without_transcript turn_end_message"
    by (simp add: is_turn_end_without_transcript_def turn_end_message_def JSON_parse_def)
  have v: "normalizeTranscript (last (not_blank [js ''hi'', js '' '', js ''hi   there ''])) =
      js ''hi there''"
    by code_simp
  from turn_end_shows_last_partial[OF h h4 h5 h6]
  obtain r extra where
    "chatMessages
           (run_messages
              ([partial_message (js ''hi''), partial_message (js '' ''),
                partial_message (js ''hi   there '')] @ [turn_end_message]) page_loaded) =
           Some ([] @ r # extra)"
    "row_role r = js ''user''" "bubble_final r"
    "bubble_text r = normalizeTranscript (last (not_blank [js ''hi'', js '' '', js ''hi   there '']))"
    by blast
  then show ?thesis using h h4 n h6 unfolding v by blast
qed

end
